theory Spec2Isabelle
  imports Main "HOL-Library.AList"
begin

section \<open>Python values\<close>

text \<open>
  The program (\<^verbatim>\<open>src/verydisco/schemas.py\<close>) walks a decoded JSON document. A decoded
  JSON value is \<^verbatim>\<open>None\<close>, a \<^verbatim>\<open>bool\<close>, an \<^verbatim>\<open>int\<close>, a \<^verbatim>\<open>str\<close>, a \<^verbatim>\<open>list\<close> or a \<^verbatim>\<open>dict\<close> with
  string keys. A \<^verbatim>\<open>dict\<close> keeps its insertion order and is modelled by an association
  list; a well-formed one has distinct keys, and \<open>map_of\<close> is its lookup. JSON numbers
  with a fraction (Python \<^verbatim>\<open>float\<close>) are outside the model. Strings are Isabelle
  strings: the model is exact for ASCII text.
\<close>

datatype json =
    JNull
  | JBool bool
  | JInt int
  | JStr string
  | JArr "json list"
  | JObj "(string \<times> json) list"

text \<open>The exceptions the program can raise on such a document.\<close>

datatype error = KeyError string | TypeError | AttributeError

text \<open>Truth value of a Python object (\<^verbatim>\<open>if x:\<close>).\<close>

fun py_truthy :: "json \<Rightarrow> bool" where
  "py_truthy JNull = False"
| "py_truthy (JBool b) = b"
| "py_truthy (JInt i) = (i \<noteq> 0)"
| "py_truthy (JStr s) = (s \<noteq> [])"
| "py_truthy (JArr xs) = (xs \<noteq> [])"
| "py_truthy (JObj kvs) = (kvs \<noteq> [])"

text \<open>\<^verbatim>\<open>d.get(k)\<close>: the value, or \<^verbatim>\<open>None\<close> when the key is missing.\<close>

definition py_get :: "(string \<times> json) list \<Rightarrow> string \<Rightarrow> json" where
  "py_get kvs k = (case map_of kvs k of None \<Rightarrow> JNull | Some v \<Rightarrow> v)"

text \<open>\<^verbatim>\<open>sep.join(xs)\<close>.\<close>

fun py_join :: "string \<Rightarrow> string list \<Rightarrow> string" where
  "py_join sep [] = []"
| "py_join sep [x] = x"
| "py_join sep (x # y # ys) = x @ sep @ py_join sep (y # ys)"

text \<open>Decimal rendering of an \<^verbatim>\<open>int\<close>.\<close>

definition digit_char :: "nat \<Rightarrow> char" where
  "digit_char d = char_of (48 + d)"

fun nat_digits :: "nat \<Rightarrow> string" where
  "nat_digits n = (if n < 10 then [digit_char n] else nat_digits (n div 10) @ [digit_char (n mod 10)])"

definition int_str :: "int \<Rightarrow> string" where
  "int_str i = (if i < 0 then CHR ''-'' # nat_digits (nat (- i)) else nat_digits (nat i))"

text \<open>
  \<^verbatim>\<open>repr\<close> of a \<^verbatim>\<open>str\<close>: single quotes, unless the text holds a single quote and no
  double quote; the quote and the backslash are escaped, so are tab, newline and
  carriage return, and the other control characters are written \<^verbatim>\<open>\xhh\<close>.
\<close>

definition repr_quote :: "string \<Rightarrow> char" where
  "repr_quote s = (if CHR 0x27 \<in> set s \<and> CHR 0x22 \<notin> set s then CHR 0x22 else CHR 0x27)"

definition hex_digit :: "nat \<Rightarrow> char" where
  "hex_digit d = (if d < 10 then char_of (48 + d) else char_of (87 + d))"

definition repr_char :: "char \<Rightarrow> char \<Rightarrow> string" where
  "repr_char q c =
     (if c = q \<or> c = CHR 0x5C then [CHR 0x5C, c]
      else if c = CHR 0x09 then [CHR 0x5C, CHR ''t'']
      else if c = CHR 0x0A then [CHR 0x5C, CHR ''n'']
      else if c = CHR 0x0D then [CHR 0x5C, CHR ''r'']
      else if (of_char c :: nat) < 32 \<or> (of_char c :: nat) = 127
        then [CHR 0x5C, CHR ''x'', hex_digit ((of_char c :: nat) div 16), hex_digit ((of_char c :: nat) mod 16)]
      else [c])"

definition repr_str :: "string \<Rightarrow> string" where
  "repr_str s = (let q = repr_quote s in [q] @ concat (map (repr_char q) s) @ [q])"

text \<open>\<^verbatim>\<open>repr(x)\<close> of a decoded JSON value.\<close>

fun py_repr :: "json \<Rightarrow> string" where
  "py_repr JNull = ''None''"
| "py_repr (JBool b) = (if b then ''True'' else ''False'')"
| "py_repr (JInt i) = int_str i"
| "py_repr (JStr s) = repr_str s"
| "py_repr (JArr xs) = ''['' @ py_join '', '' (map py_repr xs) @ '']''"
| "py_repr (JObj kvs) =
     ''{'' @ py_join '', '' (map (\<lambda>(k, v). repr_str k @ '': '' @ py_repr v) kvs) @ ''}''"

text \<open>\<^verbatim>\<open>str(x)\<close>, which is what an f-string field \<^verbatim>\<open>{x}\<close> renders.\<close>

fun py_str :: "json \<Rightarrow> string" where
  "py_str (JStr s) = s"
| "py_str v = py_repr v"

text \<open>
  A \<^verbatim>\<open>dict\<close> key must be hashable: a \<^verbatim>\<open>list\<close> or a \<^verbatim>\<open>dict\<close> raises \<^verbatim>\<open>TypeError\<close>. Equal keys
  are one key, and \<^verbatim>\<open>True == 1\<close>, \<^verbatim>\<open>False == 0\<close>: a \<^verbatim>\<open>bool\<close> key is stored as its number.
\<close>

fun dict_key :: "json \<Rightarrow> error + json" where
  "dict_key (JArr xs) = Inl TypeError"
| "dict_key (JObj kvs) = Inl TypeError"
| "dict_key (JBool b) = Inr (JInt (if b then 1 else 0))"
| "dict_key v = Inr v"

text \<open>\<^verbatim>\<open>str.capitalize()\<close> on ASCII text: first character upper case, the rest lower case.\<close>

definition ascii_upper :: "char \<Rightarrow> char" where
  "ascii_upper c = (let n = (of_char c :: nat) in if 97 \<le> n \<and> n \<le> 122 then char_of (n - 32) else c)"

definition ascii_lower :: "char \<Rightarrow> char" where
  "ascii_lower c = (let n = (of_char c :: nat) in if 65 \<le> n \<and> n \<le> 90 then char_of (n + 32) else c)"

fun capitalize :: "string \<Rightarrow> string" where
  "capitalize [] = []"
| "capitalize (c # cs) = ascii_upper c # map ascii_lower cs"

section \<open>The library's text wrapper\<close>

text \<open>
  \<^verbatim>\<open>format_docstring\<close> calls \<^verbatim>\<open>textwrap.TextWrapper(subsequent_indent=indent).fill(text)\<close>.
  The wrapper belongs to the Python library, not to the repository; it is modelled
  here as CPython 3.8 has it (the version the repository's \<^verbatim>\<open>noxfile.py\<close> tests with),
  with every other option at its default: width 70, no initial indent, tabs expanded
  to multiples of 8, whitespace replaced by spaces, long words broken, whitespace
  dropped at line ends, chunks split at whitespace, after hyphens inside words and
  around dashes.
\<close>

definition whitespace :: "string" where
  "whitespace = [CHR 0x09, CHR 0x0A, CHR 0x0B, CHR 0x0C, CHR 0x0D, CHR 0x20]"

definition is_ws :: "char \<Rightarrow> bool" where
  "is_ws c = (c \<in> set whitespace)"

text \<open>\<^verbatim>\<open>str.expandtabs(8)\<close>; the first argument is the current column.\<close>

fun expandtabs :: "nat \<Rightarrow> string \<Rightarrow> string" where
  "expandtabs col [] = []"
| "expandtabs col (c # cs) =
     (if c = CHR 0x09
      then replicate (8 - col mod 8) (CHR 0x20) @ expandtabs (col + (8 - col mod 8)) cs
      else c # expandtabs (if c = CHR 0x0A \<or> c = CHR 0x0D then 0 else col + 1) cs)"

definition munge_whitespace :: "string \<Rightarrow> string" where
  "munge_whitespace text = map (\<lambda>c. if is_ws c then CHR 0x20 else c) (expandtabs 0 text)"

text \<open>
  The character classes of \<^verbatim>\<open>wordsep_re\<close> on ASCII: \<^verbatim>\<open>[^\d\W]\<close> (a letter or the
  underscore), \<^verbatim>\<open>\w\<close>, and \<^verbatim>\<open>[\w!"'&.,?]\<close>.
\<close>

definition is_letter :: "char \<Rightarrow> bool" where
  "is_letter c = (let n = (of_char c :: nat) in (97 \<le> n \<and> n \<le> 122) \<or> (65 \<le> n \<and> n \<le> 90) \<or> n = 95)"

definition is_word :: "char \<Rightarrow> bool" where
  "is_word c = (let n = (of_char c :: nat) in is_letter c \<or> (48 \<le> n \<and> n \<le> 57))"

definition is_word_punct :: "char \<Rightarrow> bool" where
  "is_word_punct c = (is_word c \<or> c \<in> set [CHR ''!'', CHR 0x22, CHR 0x27, CHR ''&'', CHR ''.'', CHR '','', CHR ''?''])"

text \<open>
  The look-behinds and look-aheads of \<^verbatim>\<open>wordsep_re\<close>. The text before the current
  position is passed reversed, nearest character first.
  \<^verbatim>\<open>(?<=[^\d\W]{2}-) | (?<=[^\d\W]-[^\d\W]-)\<close> just after a hyphen, given the text
  before that hyphen; \<^verbatim>\<open>(?=[^\d\W]-?[^\d\W])\<close>; \<^verbatim>\<open>(?<=[\w!"'&.,?])\<close>; \<^verbatim>\<open>(?=-{2,}\w)\<close>.
\<close>

fun hyphen_behind :: "string \<Rightarrow> bool" where
  "hyphen_behind (a # b # rest) =
     (is_letter a \<and> (is_letter b \<or> (b = CHR ''-'' \<and> (case rest of [] \<Rightarrow> False | c # _ \<Rightarrow> is_letter c))))"
| "hyphen_behind _ = False"

fun hyphen_ahead :: "string \<Rightarrow> bool" where
  "hyphen_ahead (a # b # rest) =
     (is_letter a \<and> ((b = CHR ''-'' \<and> (case rest of [] \<Rightarrow> False | c # _ \<Rightarrow> is_letter c)) \<or> is_letter b))"
| "hyphen_ahead _ = False"

definition punct_behind :: "string \<Rightarrow> bool" where
  "punct_behind bef = (case bef of [] \<Rightarrow> False | c # _ \<Rightarrow> is_word_punct c)"

definition dash_ahead :: "string \<Rightarrow> bool" where
  "dash_ahead s =
     (2 \<le> length (takeWhile (\<lambda>c. c = CHR ''-'') s) \<and>
      (case dropWhile (\<lambda>c. c = CHR ''-'') s of [] \<Rightarrow> False | c # _ \<Rightarrow> is_word c))"

text \<open>
  The third alternative of \<^verbatim>\<open>wordsep_re\<close>, a word: the shortest run of at least one
  non-whitespace character that ends just after a hyphen inside a word, or before
  whitespace or the end of the text, or before a dash. \<open>scan_word bef s\<close> is called
  once the first character is taken, and returns the rest of the word and what
  follows it.
\<close>

fun scan_word :: "string \<Rightarrow> string \<Rightarrow> string \<times> string" where
  "scan_word bef [] = ([], [])"
| "scan_word bef (c # cs) =
     (if c = CHR ''-'' \<and> hyphen_behind bef \<and> hyphen_ahead cs then ([c], cs)
      else if is_ws c then ([], c # cs)
      else if punct_behind bef \<and> dash_ahead (c # cs) then ([], c # cs)
      else (case scan_word (c # bef) cs of (w, r) \<Rightarrow> (c # w, r)))"

text \<open>
  One match of \<^verbatim>\<open>wordsep_re\<close> at the start of a non-empty text: a run of whitespace,
  or a dash between words, or a word. It matches at every position, so
  \<^verbatim>\<open>wordsep_re.split\<close> leaves nothing between two matches, and the chunks are the
  matches.
\<close>

fun next_chunk :: "string \<Rightarrow> string \<Rightarrow> string \<times> string" where
  "next_chunk bef [] = ([], [])"
| "next_chunk bef (c # cs) =
     (if is_ws c then (takeWhile is_ws (c # cs), dropWhile is_ws (c # cs))
      else if punct_behind bef \<and> dash_ahead (c # cs)
        then (takeWhile (\<lambda>c. c = CHR ''-'') (c # cs), dropWhile (\<lambda>c. c = CHR ''-'') (c # cs))
      else (case scan_word (c # bef) cs of (w, r) \<Rightarrow> (c # w, r)))"

lemma scan_word_length: "scan_word bef s = (w, r) \<Longrightarrow> length r \<le> length s"
  by (induction bef s arbitrary: w r rule: scan_word.induct)
     (auto split: if_splits prod.splits)

lemma next_chunk_length: "next_chunk bef (c # cs) = (w, r) \<Longrightarrow> length r \<le> length cs"
  by (auto split: if_splits prod.splits simp: dash_ahead_def length_dropWhile_le
      dest: scan_word_length)

function split_chunks :: "string \<Rightarrow> string \<Rightarrow> string list" where
  "split_chunks bef [] = []"
| "split_chunks bef (c # cs) =
     (case next_chunk bef (c # cs) of (w, r) \<Rightarrow> w # split_chunks (rev w @ bef) r)"
  by pat_completeness auto
termination
  by (relation "measure (\<lambda>(bef, s). length s)")
     (auto simp del: next_chunk.simps dest: next_chunk_length [OF sym])

text \<open>
  \<^verbatim>\<open>s.strip() == ''\<close>: every character is white space for \<^verbatim>\<open>str.isspace\<close>, which on
  ASCII also counts the separators \<^verbatim>\<open>\x1c\<close> to \<^verbatim>\<open>\x1f\<close>.
\<close>

definition py_isspace :: "char \<Rightarrow> bool" where
  "py_isspace c = (let n = (of_char c :: nat) in (9 \<le> n \<and> n \<le> 13) \<or> (28 \<le> n \<and> n \<le> 32))"

definition py_blank :: "string \<Rightarrow> bool" where
  "py_blank s = list_all py_isspace s"

text \<open>The slices \<^verbatim>\<open>s[:n]\<close> and \<^verbatim>\<open>s[n:]\<close>; a negative \<open>n\<close> counts from the end.\<close>

definition py_take :: "int \<Rightarrow> string \<Rightarrow> string" where
  "py_take n s = (if n < 0 then take (length s - nat (- n)) s else take (nat n) s)"

definition py_drop :: "int \<Rightarrow> string \<Rightarrow> string" where
  "py_drop n s = (if n < 0 then drop (length s - nat (- n)) s else drop (nat n) s)"

text \<open>
  The inner loop of \<^verbatim>\<open>_wrap_chunks\<close>: chunks move to the current line while they fit.
  The chunks are kept in reading order, the next one first (the source reverses
  the list and pops from its end).
\<close>

fun take_fitting :: "int \<Rightarrow> string list \<Rightarrow> int \<Rightarrow> string list \<Rightarrow> string list \<times> int \<times> string list" where
  "take_fitting width cur_line cur_len [] = (cur_line, cur_len, [])"
| "take_fitting width cur_line cur_len (c # cs) =
     (if cur_len + int (length c) \<le> width
      then take_fitting width (cur_line @ [c]) (cur_len + int (length c)) cs
      else (cur_line, cur_len, c # cs))"

text \<open>\<^verbatim>\<open>_handle_long_word\<close> with \<^verbatim>\<open>break_long_words\<close> set: returns the chunks and the line.\<close>

fun handle_long_word :: "string list \<Rightarrow> string list \<Rightarrow> int \<Rightarrow> int \<Rightarrow> string list \<times> string list" where
  "handle_long_word [] cur_line cur_len width = ([], cur_line)"
| "handle_long_word (c # cs) cur_line cur_len width =
     (let space_left = (if width < 1 then 1 else width - cur_len)
      in (py_drop space_left c # cs, cur_line @ [py_take space_left c]))"

text \<open>One pass of the outer loop of \<^verbatim>\<open>_wrap_chunks\<close>, which builds one line.\<close>

fun wrap_line :: "string \<Rightarrow> string list \<Rightarrow> string list \<Rightarrow> string list \<times> string list" where
  "wrap_line subsequent_indent lines [] = (lines, [])"
| "wrap_line subsequent_indent lines (c # cs) =
     (let indent = (if lines \<noteq> [] then subsequent_indent else []);
          width = 70 - int (length indent);
          chunks1 = (if py_blank c \<and> lines \<noteq> [] then cs else c # cs)
      in case take_fitting width [] 0 chunks1 of (cur_line, cur_len, chunks2) \<Rightarrow>
         (case (if chunks2 \<noteq> [] \<and> int (length (hd chunks2)) > width
                then handle_long_word chunks2 cur_line cur_len width
                else (chunks2, cur_line)) of (chunks3, cur_line1) \<Rightarrow>
            (let cur_line2 = (if cur_line1 \<noteq> [] \<and> py_blank (last cur_line1)
                              then butlast cur_line1 else cur_line1)
             in (if cur_line2 \<noteq> [] then lines @ [indent @ concat cur_line2] else lines, chunks3))))"

text \<open>The measure that every pass of the outer loop decreases.\<close>

definition chunks_size :: "string list \<Rightarrow> nat" where
  "chunks_size chunks = sum_list (map (\<lambda>c. Suc (length c)) chunks)"

lemma take_fitting_size:
  "take_fitting width cur_line cur_len chunks = (cl, n, chunks') \<Longrightarrow>
     chunks_size chunks' \<le> chunks_size chunks"
  by (induction width cur_line cur_len chunks rule: take_fitting.induct)
     (auto simp: chunks_size_def split: if_splits)

lemma take_fitting_none:
  "take_fitting width cur_line cur_len chunks = (cl, n, chunks') \<Longrightarrow>
     chunks_size chunks' = chunks_size chunks \<Longrightarrow> chunks' = chunks \<and> cl = cur_line \<and> n = cur_len"
proof (induction width cur_line cur_len chunks rule: take_fitting.induct)
  case (1 width cur_line cur_len)
  then show ?case by simp
next
  case (2 width cur_line cur_len c cs)
  show ?case
  proof (cases "cur_len + int (length c) \<le> width")
    case True
    with "2.prems"(1) have "chunks_size chunks' \<le> chunks_size cs"
      by (auto dest: take_fitting_size)
    with "2.prems"(2) show ?thesis by (simp add: chunks_size_def)
  next
    case False
    with "2.prems"(1) show ?thesis by simp
  qed
qed

lemma take_fitting_stuck:
  "take_fitting width cur_line cur_len (c # cs) = (cl, n, c # cs) \<Longrightarrow>
     \<not> cur_len + int (length c) \<le> width"
proof
  assume a: "take_fitting width cur_line cur_len (c # cs) = (cl, n, c # cs)"
    and b: "cur_len + int (length c) \<le> width"
  then have "take_fitting width (cur_line @ [c]) (cur_len + int (length c)) cs = (cl, n, c # cs)"
    by simp
  then have "chunks_size (c # cs) \<le> chunks_size cs"
    by (rule take_fitting_size)
  then show False by (simp add: chunks_size_def)
qed

lemma wrap_line_decreases:
  "wrap_line ind lines (c # cs) = (lines', chunks') \<Longrightarrow> chunks_size chunks' < chunks_size (c # cs)"
proof -
  assume a: "wrap_line ind lines (c # cs) = (lines', chunks')"
  define indent where "indent = (if lines \<noteq> [] then ind else [])"
  define width where "width = 70 - int (length indent)"
  define chunks1 where "chunks1 = (if py_blank c \<and> lines \<noteq> [] then cs else c # cs)"
  obtain cur_line cur_len chunks2 where tf: "take_fitting width [] 0 chunks1 = (cur_line, cur_len, chunks2)"
    by (cases "take_fitting width [] 0 chunks1") auto
  define hl where "hl = (if chunks2 \<noteq> [] \<and> int (length (hd chunks2)) > width
                then handle_long_word chunks2 cur_line cur_len width
                else (chunks2, cur_line))"
  from a tf have c': "chunks' = fst hl"
    by (auto simp: Let_def indent_def width_def chunks1_def hl_def split: prod.splits)
  have le1: "chunks_size chunks1 \<le> chunks_size (c # cs)"
    by (simp add: chunks1_def chunks_size_def)
  have le2: "chunks_size chunks2 \<le> chunks_size chunks1"
    using tf by (rule take_fitting_size)
  have le3: "chunks_size (fst hl) \<le> chunks_size chunks2"
    by (cases chunks2) (auto simp: hl_def chunks_size_def Let_def py_drop_def)
  show ?thesis
  proof (cases "py_blank c \<and> lines \<noteq> []")
    case True
    then have "chunks_size chunks1 < chunks_size (c # cs)"
      by (simp add: chunks1_def chunks_size_def)
    with le2 le3 c' show ?thesis by simp
  next
    case False
    then have c1: "chunks1 = c # cs" by (simp add: chunks1_def)
    show ?thesis
    proof (cases "chunks_size chunks2 = chunks_size chunks1")
      case False
      with le2 le3 c1 c' show ?thesis by simp
    next
      case True
      with tf have same: "chunks2 = c # cs" "cur_len = 0"
        using take_fitting_none [OF tf] c1 by auto
      with tf c1 have nofit: "\<not> int (length c) \<le> width"
        using take_fitting_stuck [of width "[]" 0 c cs cur_line cur_len] by simp
      have w: "1 \<le> width \<or> (lines \<noteq> [] \<and> width < 1)"
        by (auto simp: width_def indent_def)
      have cne: "c \<noteq> []"
      proof
        assume "c = []"
        with nofit have "width < 0" by simp
        with w have "lines \<noteq> []" by auto
        with \<open>c = []\<close> False show False by (simp add: py_blank_def)
      qed
      have "chunks_size (fst hl) < chunks_size (c # cs)"
        using nofit same cne w
        by (auto simp: hl_def chunks_size_def Let_def py_drop_def)
      with c' show ?thesis by simp
    qed
  qed
qed

text \<open>\<^verbatim>\<open>_wrap_chunks\<close>: the outer loop, from the lines made so far and the chunks left.\<close>

function wrap_chunks :: "string \<Rightarrow> string list \<Rightarrow> string list \<Rightarrow> string list" where
  "wrap_chunks subsequent_indent lines [] = lines"
| "wrap_chunks subsequent_indent lines (c # cs) =
     (case wrap_line subsequent_indent lines (c # cs) of
        (lines', chunks') \<Rightarrow> wrap_chunks subsequent_indent lines' chunks')"
  by pat_completeness auto
termination
  by (relation "measure (\<lambda>(ind, lines, chunks). chunks_size chunks)")
     (auto simp del: wrap_line.simps split: prod.splits dest: wrap_line_decreases)

text \<open>\<^verbatim>\<open>TextWrapper.wrap\<close> and \<^verbatim>\<open>TextWrapper.fill\<close>.\<close>

definition wrap :: "string \<Rightarrow> string \<Rightarrow> string list" where
  "wrap subsequent_indent text = wrap_chunks subsequent_indent [] (split_chunks [] (munge_whitespace text))"

definition fill :: "string \<Rightarrow> string \<Rightarrow> string" where
  "fill subsequent_indent text = py_join ''\<newline>'' (wrap subsequent_indent text)"

section \<open>The program\<close>

text \<open>
  \<^verbatim>\<open>SchemaParser.format_docstring(text, indent)\<close>. The caller passes whatever the schema
  holds under \<^verbatim>\<open>description\<close>: a value that is true and not a \<^verbatim>\<open>str\<close> has no
  \<^verbatim>\<open>expandtabs\<close>, and the wrapper raises \<^verbatim>\<open>AttributeError\<close>.
\<close>

definition triple_quote :: "string" where
  "triple_quote = [CHR 0x22, CHR 0x22, CHR 0x22]"

definition max_line_length :: "nat" where
  "max_line_length = 80"

definition format_docstring :: "json \<Rightarrow> string \<Rightarrow> error + string" where
  "format_docstring text indent =
     (if py_truthy text then
        (case text of
           JStr s \<Rightarrow>
             (let result = indent @ triple_quote @ fill indent s
              in if length result > max_line_length - length triple_quote
                 then Inr (result @ ''\<newline>'' @ indent @ triple_quote @ ''\<newline>'')
                 else Inr (result @ triple_quote @ ''\<newline>''))
         | _ \<Rightarrow> Inl AttributeError)
      else Inr [])"

text \<open>
  \<^verbatim>\<open>SchemaParser.simple_types\<close>, in the order of the source, and
  \<^verbatim>\<open>SchemaParser.python_keywords = set(keyword.kwlist) | set(dir(builtins))\<close>. The two lists
  come from the Python library; they are those of CPython 3.7 and 3.8.
\<close>

definition simple_types :: "(string \<times> string) list" where
  "simple_types =
    [(''any'', ''Any''), (''boolean'', ''bool''), (''integer'', ''int''),
     (''null'', ''None''), (''number'', ''float''), (''string'', ''str'')]"

definition kwlist :: "string list" where
  "kwlist =
    [''False'', ''None'', ''True'', ''and'', ''as'', ''assert'', ''async'', ''await'',
         ''break'', ''class'', ''continue'', ''def'', ''del'', ''elif'', ''else'',
         ''except'', ''finally'', ''for'', ''from'', ''global'', ''if'', ''import'', ''in'',
         ''is'', ''lambda'', ''nonlocal'', ''not'', ''or'', ''pass'', ''raise'', ''return'',
         ''try'', ''while'', ''with'', ''yield'']"

definition builtins_dir :: "string list" where
  "builtins_dir =
    [''ArithmeticError'', ''AssertionError'', ''AttributeError'', ''BaseException'',
         ''BlockingIOError'', ''BrokenPipeError'', ''BufferError'', ''BytesWarning'',
         ''ChildProcessError'', ''ConnectionAbortedError'', ''ConnectionError'',
         ''ConnectionRefusedError'', ''ConnectionResetError'', ''DeprecationWarning'',
         ''EOFError'', ''Ellipsis'', ''EnvironmentError'', ''Exception'', ''False'',
         ''FileExistsError'', ''FileNotFoundError'', ''FloatingPointError'',
         ''FutureWarning'', ''GeneratorExit'', ''IOError'', ''ImportError'',
         ''ImportWarning'', ''IndentationError'', ''IndexError'', ''InterruptedError'',
         ''IsADirectoryError'', ''KeyError'', ''KeyboardInterrupt'', ''LookupError'',
         ''MemoryError'', ''ModuleNotFoundError'', ''NameError'', ''None'',
         ''NotADirectoryError'', ''NotImplemented'', ''NotImplementedError'', ''OSError'',
         ''OverflowError'', ''PendingDeprecationWarning'', ''PermissionError'',
         ''ProcessLookupError'', ''RecursionError'', ''ReferenceError'',
         ''ResourceWarning'', ''RuntimeError'', ''RuntimeWarning'', ''StopAsyncIteration'',
         ''StopIteration'', ''SyntaxError'', ''SyntaxWarning'', ''SystemError'',
         ''SystemExit'', ''TabError'', ''TimeoutError'', ''True'', ''TypeError'',
         ''UnboundLocalError'', ''UnicodeDecodeError'', ''UnicodeEncodeError'',
         ''UnicodeError'', ''UnicodeTranslateError'', ''UnicodeWarning'', ''UserWarning'',
         ''ValueError'', ''Warning'', ''ZeroDivisionError'', ''__build_class__'',
         ''__debug__'', ''__doc__'', ''__import__'', ''__loader__'', ''__name__'',
         ''__package__'', ''__spec__'', ''abs'', ''all'', ''any'', ''ascii'', ''bin'',
         ''bool'', ''breakpoint'', ''bytearray'', ''bytes'', ''callable'', ''chr'',
         ''classmethod'', ''compile'', ''complex'', ''copyright'', ''credits'', ''delattr'',
         ''dict'', ''dir'', ''divmod'', ''enumerate'', ''eval'', ''exec'', ''exit'',
         ''filter'', ''float'', ''format'', ''frozenset'', ''getattr'', ''globals'',
         ''hasattr'', ''hash'', ''help'', ''hex'', ''id'', ''input'', ''int'',
         ''isinstance'', ''issubclass'', ''iter'', ''len'', ''license'', ''list'',
         ''locals'', ''map'', ''max'', ''memoryview'', ''min'', ''next'', ''object'',
         ''oct'', ''open'', ''ord'', ''pow'', ''print'', ''property'', ''quit'', ''range'',
         ''repr'', ''reversed'', ''round'', ''set'', ''setattr'', ''slice'', ''sorted'',
         ''staticmethod'', ''str'', ''sum'', ''super'', ''tuple'', ''type'', ''vars'',
         ''zip'']"

definition python_keywords :: "string set" where
  "python_keywords = set kwlist \<union> set builtins_dir"

text \<open>\<^verbatim>\<open>SchemaParser.valid_property_name\<close>.\<close>

definition valid_property_name :: "string \<Rightarrow> string" where
  "valid_property_name name = (if name \<in> python_keywords then name @ ''_'' else name)"

text \<open>
  The registry \<^verbatim>\<open>self.model_defs\<close>: a \<^verbatim>\<open>dict\<close> from the name of a model to its text, in
  insertion order. \<^verbatim>\<open>model_defs[k] = v\<close> is \<open>AList.update k v\<close>: a new key goes to the
  end, a present key keeps its place and gets the new value.
\<close>

type_synonym registry = "(json \<times> string) list"

text \<open>A property of a model: its name, its type and its default, both as Python text.\<close>

type_synonym property = "string \<times> string \<times> string option"

definition indent4 :: "string" where
  "indent4 = replicate 4 (CHR 0x20)"

definition quoted :: "string \<Rightarrow> string" where
  "quoted s = [CHR 0x22] @ s @ [CHR 0x22]"

text \<open>
  The head of \<^verbatim>\<open>parse_property\<close>: \<^verbatim>\<open>schema["type"]\<close>, and \<^verbatim>\<open>schema["$ref"]\<close> when the
  first raises \<^verbatim>\<open>KeyError\<close>; the \<^verbatim>\<open>KeyError\<close> of the second lookup is not caught.
\<close>

definition lookup_type :: "(string \<times> json) list \<Rightarrow> error + json" where
  "lookup_type kvs =
     (case map_of kvs ''type'' of
        Some t \<Rightarrow> Inr t
      | None \<Rightarrow> (case map_of kvs ''$ref'' of Some r \<Rightarrow> Inr r | None \<Rightarrow> Inl (KeyError ''$ref'')))"

text \<open>
  \<^verbatim>\<open>type_ in self.simple_types\<close> and, when it holds, \<^verbatim>\<open>self.simple_types[type_]\<close>. The
  test hashes \<^verbatim>\<open>type_\<close>: a \<^verbatim>\<open>list\<close> or a \<^verbatim>\<open>dict\<close> raises \<^verbatim>\<open>TypeError\<close>.
\<close>

fun simple_type_of :: "json \<Rightarrow> error + string option" where
  "simple_type_of (JStr s) = Inr (map_of simple_types s)"
| "simple_type_of (JArr xs) = Inl TypeError"
| "simple_type_of (JObj kvs) = Inl TypeError"
| "simple_type_of v = Inr None"

text \<open>\<^verbatim>\<open>schema.get("default")\<close>, through \<^verbatim>\<open>repr\<close> unless it is \<^verbatim>\<open>None\<close>.\<close>

definition default_repr :: "(string \<times> json) list \<Rightarrow> string option" where
  "default_repr kvs = (case py_get kvs ''default'' of JNull \<Rightarrow> None | d \<Rightarrow> Some (py_repr d))"

text \<open>
  The tail of \<^verbatim>\<open>schema_as_string\<close>: the name of the model (the schema's \<^verbatim>\<open>id\<close> if it is
  true, else the caller's \<^verbatim>\<open>class_name\<close> if it is true, else a name made from the
  properties), and the text of the class.
\<close>

definition synthesized_name :: "property list \<Rightarrow> string" where
  "synthesized_name properties = ''_'' @ concat (map (\<lambda>(name, _, _). capitalize name) properties)"

definition model_id :: "json \<Rightarrow> string option \<Rightarrow> property list \<Rightarrow> json" where
  "model_id id' class_name properties =
     (if \<not> py_truthy id' then
        (case class_name of
           Some c \<Rightarrow> if c \<noteq> [] then JStr c else JStr (synthesized_name properties)
         | None \<Rightarrow> JStr (synthesized_name properties))
      else id')"

definition property_line :: "property \<Rightarrow> string" where
  "property_line p =
     (case p of (name, type', default') \<Rightarrow>
        (case default' of
           Some d \<Rightarrow> if d \<noteq> [] then name @ '': '' @ type' @ '' = '' @ d else name @ '': '' @ type'
         | None \<Rightarrow> name @ '': '' @ type'))"

definition class_text :: "json \<Rightarrow> string \<Rightarrow> property list \<Rightarrow> string" where
  "class_text id' docstring properties =
     ''class '' @ py_str id' @ ''(pydantic.BaseModel):\<newline>'' @ docstring
       @ concat (map (\<lambda>p. indent4 @ property_line p @ ''\<newline>'') properties)
       @ (if properties = [] \<and> docstring = [] then indent4 @ ''pass\<newline>'' else [])"

lemma size_map_of: "map_of kvs k = Some v \<Longrightarrow> size v < size (JObj kvs)"
  by (induction kvs) (auto split: if_splits)

text \<open>
  \<^verbatim>\<open>parse_property\<close>, \<^verbatim>\<open>schema_as_string\<close> and the loop of \<^verbatim>\<open>schema_as_string\<close> over the
  properties. The registry is passed in and returned; an exception returns no
  registry. A value that is not a \<^verbatim>\<open>dict\<close> cannot be indexed by a string
  (\<^verbatim>\<open>TypeError\<close>) and has no \<^verbatim>\<open>get\<close> or \<^verbatim>\<open>items\<close> (\<^verbatim>\<open>AttributeError\<close>).
\<close>

function (sequential)
  parse_property :: "registry \<Rightarrow> json \<Rightarrow> string \<Rightarrow> error + ((string \<times> string option) \<times> registry)"
  and schema_as_string :: "registry \<Rightarrow> json \<Rightarrow> string option \<Rightarrow> error + registry"
  and parse_properties :: "registry \<Rightarrow> (string \<times> json) list \<Rightarrow> property list \<Rightarrow> error + (property list \<times> registry)"
where
  "parse_property reg (JObj kvs) name =
     (case lookup_type kvs of
        Inl e \<Rightarrow> Inl e
      | Inr type' \<Rightarrow>
          (case simple_type_of type' of
             Inl e \<Rightarrow> Inl e
           | Inr (Some py_type) \<Rightarrow> Inr ((py_type, default_repr kvs), reg)
           | Inr None \<Rightarrow>
               if type' = JStr ''object'' then
                 (case schema_as_string reg (JObj kvs) (Some (''_'' @ name)) of
                    Inl e \<Rightarrow> Inl e
                  | Inr reg' \<Rightarrow> Inr ((quoted (''_'' @ name), None), reg'))
               else if type' = JStr ''array'' then
                 (case map_of kvs ''items'' of
                    None \<Rightarrow> Inl (KeyError ''items'')
                  | Some items \<Rightarrow>
                      (case parse_property reg items name of
                         Inl e \<Rightarrow> Inl e
                       | Inr ((py_type, default'), reg') \<Rightarrow>
                           Inr ((''List['' @ py_type @ '']'', default'), reg')))
               else Inr ((quoted (py_str type'), None), reg)))"
| "parse_property reg schema name = Inl TypeError"
| "schema_as_string reg (JObj kvs) class_name =
     (case format_docstring (case map_of kvs ''description'' of None \<Rightarrow> JStr [] | Some d \<Rightarrow> d) indent4 of
        Inl e \<Rightarrow> Inl e
      | Inr docstring \<Rightarrow>
          (case (case map_of kvs ''properties'' of
                   None \<Rightarrow> Inr ([], reg)
                 | Some (JObj ps) \<Rightarrow> parse_properties reg ps []
                 | Some other \<Rightarrow> Inl AttributeError) of
             Inl e \<Rightarrow> Inl e
           | Inr (properties, reg') \<Rightarrow>
               (let id' = model_id (py_get kvs ''id'') class_name properties
                in case dict_key id' of
                     Inl e \<Rightarrow> Inl e
                   | Inr k \<Rightarrow> Inr (AList.update k (class_text id' docstring properties) reg'))))"
| "schema_as_string reg schema class_name = Inl AttributeError"
| "parse_properties reg [] properties = Inr (properties, reg)"
| "parse_properties reg ((pname, pschema) # rest) properties =
     (case parse_property reg pschema (valid_property_name pname) of
        Inl e \<Rightarrow> Inl e
      | Inr ((prop_type, pdefault), reg') \<Rightarrow>
          parse_properties reg' rest (properties @ [(valid_property_name pname, prop_type, pdefault)]))"
  by pat_completeness auto
termination
  by (relation "measure (\<lambda>x. case x of
          Inl (reg, schema, name) \<Rightarrow> 2 * size schema + 1
        | Inr (Inl (reg, schema, class_name)) \<Rightarrow> 2 * size schema
        | Inr (Inr (reg, ps, properties)) \<Rightarrow> 2 * size (JObj ps) + 1)")
     (auto dest: size_map_of)

text \<open>The loop of \<^verbatim>\<open>schema_as_string\<close> with its guard \<^verbatim>\<open>if "properties" in schema\<close>.\<close>

definition properties_of :: "registry \<Rightarrow> (string \<times> json) list \<Rightarrow> error + (property list \<times> registry)" where
  "properties_of reg kvs =
     (case map_of kvs ''properties'' of
        None \<Rightarrow> Inr ([], reg)
      | Some (JObj ps) \<Rightarrow> parse_properties reg ps []
      | Some other \<Rightarrow> Inl AttributeError)"

text \<open>
  A property whose type and default, as texts, do not end with a newline: its line in
  the class text then ends where the line ends.
\<close>

definition closed_line :: "property \<Rightarrow> bool" where
  "closed_line p =
     (case p of (name, type', default') \<Rightarrow>
        type' \<noteq> [] \<and> last type' \<noteq> CHR ''\<newline>'' \<and>
        (case default' of None \<Rightarrow> True | Some d \<Rightarrow> d = [] \<or> last d \<noteq> CHR ''\<newline>''))"

text \<open>\<^verbatim>\<open>SchemaParser.__init__\<close>: the loop over the schemas, from an empty registry.\<close>

fun init_loop :: "registry \<Rightarrow> (string \<times> json) list \<Rightarrow> error + registry" where
  "init_loop reg [] = Inr reg"
| "init_loop reg ((name, schema) # rest) =
     (case schema_as_string reg schema (Some name) of
        Inl e \<Rightarrow> Inl e
      | Inr reg' \<Rightarrow> init_loop reg' rest)"

definition SchemaParser :: "json \<Rightarrow> error + registry" where
  "SchemaParser schemas = (case schemas of JObj kvs \<Rightarrow> init_loop [] kvs | other \<Rightarrow> Inl AttributeError)"

text \<open>\<^verbatim>\<open>write_models\<close>: the text written to the file, when the parser raises nothing.\<close>

definition write_models :: "json \<Rightarrow> error + string" where
  "write_models schemas =
     (case SchemaParser schemas of
        Inl e \<Rightarrow> Inl e
      | Inr model_defs \<Rightarrow> Inr (py_join ''\<newline>\<newline>'' (map snd model_defs)))"

section \<open>Properties\<close>

subsection \<open>The branches of the resolver\<close>

text \<open>
  \<^verbatim>\<open>object\<close> and \<^verbatim>\<open>array\<close> are not simple types, so a node of one of these types reaches
  its branch; every other type is a simple type or is taken for a reference. The only
  \<^verbatim>\<open>KeyError\<close> of \<^verbatim>\<open>schema_as_string\<close> comes from the loop over the properties, and there
  from the resolution of one property.
\<close>

lemma simple_types_object [simp]: "map_of simple_types ''object'' = None"
  by (simp add: simple_types_def)

lemma simple_types_array [simp]: "map_of simple_types ''array'' = None"
  by (simp add: simple_types_def)

lemma parse_property_object:
  "lookup_type kvs = Inr (JStr ''object'') \<Longrightarrow>
   parse_property reg (JObj kvs) name =
     (case schema_as_string reg (JObj kvs) (Some (''_'' @ name)) of
        Inl e \<Rightarrow> Inl e
      | Inr reg' \<Rightarrow> Inr ((quoted (''_'' @ name), None), reg'))"
  by (simp del: schema_as_string.simps)

lemma parse_property_array:
  "lookup_type kvs = Inr (JStr ''array'') \<Longrightarrow>
   parse_property reg (JObj kvs) name =
     (case map_of kvs ''items'' of
        None \<Rightarrow> Inl (KeyError ''items'')
      | Some items \<Rightarrow>
          (case parse_property reg items name of
             Inl e \<Rightarrow> Inl e
           | Inr ((py_type, default'), reg') \<Rightarrow> Inr ((''List['' @ py_type @ '']'', default'), reg')))"
  by simp

lemma parse_property_other:
  "lookup_type kvs = Inr t \<Longrightarrow> t \<noteq> JStr ''object'' \<Longrightarrow> t \<noteq> JStr ''array'' \<Longrightarrow>
   parse_property reg (JObj kvs) name =
     (case simple_type_of t of
        Inl e \<Rightarrow> Inl e
      | Inr (Some py_type) \<Rightarrow> Inr ((py_type, default_repr kvs), reg)
      | Inr None \<Rightarrow> Inr ((quoted (py_str t), None), reg))"
  by (simp split: sum.splits option.splits)

lemma simple_type_of_error: "simple_type_of t = Inl e \<Longrightarrow> e = TypeError"
  by (cases t) auto

lemma format_docstring_error: "format_docstring text ind = Inl e \<Longrightarrow> e = AttributeError"
  by (auto simp: format_docstring_def Let_def split: if_splits json.splits)

lemma dict_key_error: "dict_key v = Inl e \<Longrightarrow> e = TypeError"
  by (cases v) auto

lemma parse_properties_error:
  "parse_properties reg ps acc = Inl e \<Longrightarrow>
   \<exists>pname pschema reg'. (pname, pschema) \<in> set ps \<and>
      parse_property reg' pschema (valid_property_name pname) = Inl e"
proof (induction ps arbitrary: reg acc)
  case Nil
  then show ?case by simp
next
  case (Cons p ps)
  obtain pname pschema where p: "p = (pname, pschema)" by (cases p)
  show ?case
  proof (cases "parse_property reg pschema (valid_property_name pname)")
    case (Inl e')
    with Cons.prems p have "e' = e" by simp
    with Inl p show ?thesis by auto
  next
    case (Inr r)
    with Cons.prems p obtain acc' reg' where "parse_properties reg' ps acc' = Inl e"
      by (auto split: prod.splits)
    from Cons.IH [OF this] p show ?thesis by auto
  qed
qed

lemma schema_as_string_key_error:
  assumes "schema_as_string reg (JObj kvs) cn = Inl (KeyError k)"
  shows "\<exists>ps. map_of kvs ''properties'' = Some (JObj ps) \<and> parse_properties reg ps [] = Inl (KeyError k)"
  using assms
  by (auto simp: Let_def split: sum.splits option.splits json.splits prod.splits
      dest: format_docstring_error dict_key_error)

text \<open>
  \<^verbatim>\<open>schema_as_string\<close> in one piece, and what a successful call has done: the docstring,
  the properties, the name, and one assignment to the registry. Facts about the
  registry as an association list, and properties that are all of a simple type.
\<close>

lemma schema_as_string_unfold:
  "schema_as_string reg (JObj kvs) class_name =
     (case format_docstring (case map_of kvs ''description'' of None \<Rightarrow> JStr [] | Some d \<Rightarrow> d) indent4 of
        Inl e \<Rightarrow> Inl e
      | Inr docstring \<Rightarrow>
          (case properties_of reg kvs of
             Inl e \<Rightarrow> Inl e
           | Inr (properties, reg') \<Rightarrow>
               (case dict_key (model_id (py_get kvs ''id'') class_name properties) of
                  Inl e \<Rightarrow> Inl e
                | Inr k \<Rightarrow>
                    Inr (AList.update k
                      (class_text (model_id (py_get kvs ''id'') class_name properties) docstring properties)
                      reg'))))"
  by (simp add: properties_of_def Let_def split: sum.splits prod.splits)

lemma schema_as_string_result:
  assumes "schema_as_string reg (JObj kvs) class_name = Inr reg'"
  shows "\<exists>docstring properties reg_mid k.
           format_docstring (case map_of kvs ''description'' of None \<Rightarrow> JStr [] | Some d \<Rightarrow> d) indent4
             = Inr docstring \<and>
           properties_of reg kvs = Inr (properties, reg_mid) \<and>
           dict_key (model_id (py_get kvs ''id'') class_name properties) = Inr k \<and>
           reg' = AList.update k
             (class_text (model_id (py_get kvs ''id'') class_name properties) docstring properties) reg_mid"
  using assms unfolding schema_as_string_unfold
  by (auto split: sum.splits prod.splits)


lemma map_of_update_same: "map_of (AList.update k v al) k = Some v"
  by (simp add: update_conv')

lemma map_of_update_other: "k' \<noteq> k \<Longrightarrow> map_of (AList.update k v al) k' = map_of al k'"
  by (simp add: update_conv')

lemma lookup_type_type: "map_of kvs ''type'' = Some t \<Longrightarrow> lookup_type kvs = Inr t"
  by (simp add: lookup_type_def)

lemma lookup_type_ref:
  "map_of kvs ''type'' = None \<Longrightarrow> map_of kvs ''$ref'' = Some r \<Longrightarrow> lookup_type kvs = Inr r"
  by (simp add: lookup_type_def)



text \<open>
  The two loops, cut at any position: the loop over the properties and the loop over
  the schemas run the first part, then the second part from the registry (and the
  properties) the first part has left, and stop at the first exception. An assignment
  under a name the registry has keeps the names and their order.
\<close>

lemma parse_properties_append:
  "parse_properties reg (ps1 @ ps2) acc =
     (case parse_properties reg ps1 acc of
        Inl e \<Rightarrow> Inl e
      | Inr (acc1, reg1) \<Rightarrow> parse_properties reg1 ps2 acc1)"
proof (induction ps1 arbitrary: reg acc)
  case Nil
  show ?case by simp
next
  case (Cons p ps1)
  obtain pname pschema where p: "p = (pname, pschema)" by (cases p)
  show ?case
  proof (cases "parse_property reg pschema (valid_property_name pname)")
    case (Inl e)
    with p show ?thesis by simp
  next
    case (Inr r)
    obtain ty d reg' where "r = ((ty, d), reg')" by (cases r) auto
    with Inr p Cons.IH show ?thesis by simp
  qed
qed

lemma init_loop_append:
  "init_loop reg (s1 @ s2) =
     (case init_loop reg s1 of Inl e \<Rightarrow> Inl e | Inr reg1 \<Rightarrow> init_loop reg1 s2)"
proof (induction s1 arbitrary: reg)
  case Nil
  show ?case by simp
next
  case (Cons p s1)
  obtain n schema where p: "p = (n, schema)" by (cases p)
  with Cons.IH show ?case
    by (simp split: sum.splits)
qed

lemma update_present_keys: "k \<in> fst ` set al \<Longrightarrow> map fst (AList.update k v al) = map fst al"
  by (induction al) auto

lemma indent4_eq: "indent4 = ''    ''"
  by (simp add: indent4_def eval_nat_numeral)

subsection \<open>Simple types\<close>

text \<open>
  Claim C2. A field schema whose \<^verbatim>\<open>type\<close> is one of the six simple-type keywords resolves
  to the primitive of the fixed table: boolean to bool, integer to int, string to str,
  number to float, null to None, any to Any. The table of the statement is written out
  from the claim; the default is the schema's \<^verbatim>\<open>default\<close> through \<^verbatim>\<open>repr\<close>, and the
  registry is left as it was.
\<close>

theorem simple_type_mapping:
  assumes "map_of kvs ''type'' = Some (JStr t)"
    and "map_of [(''boolean'', ''bool''), (''integer'', ''int''), (''string'', ''str''),
                 (''number'', ''float''), (''null'', ''None''), (''any'', ''Any'')] t = Some py"
  shows "parse_property reg (JObj kvs) name = Inr ((py, default_repr kvs), reg)"
  using assms by (auto simp: lookup_type_def simple_types_def split: if_splits)

text \<open>The six keywords at concrete schemas.\<close>

theorem simple_type_mapping_witness:
  "parse_property [] (JObj [(''type'', JStr ''boolean'')]) ''a'' = Inr ((''bool'', None), [])
   \<and> parse_property [] (JObj [(''format'', JStr ''int32''), (''type'', JStr ''integer'')]) ''b''
        = Inr ((''int'', None), [])
   \<and> parse_property [] (JObj [(''type'', JStr ''string''), (''default'', JStr ''bar'')]) ''c''
        = Inr ((''str'', Some [CHR 0x27, CHR ''b'', CHR ''a'', CHR ''r'', CHR 0x27]), [])
   \<and> parse_property [] (JObj [(''type'', JStr ''number''), (''default'', JInt 12)]) ''d''
        = Inr ((''float'', Some ''12''), [])
   \<and> parse_property [] (JObj [(''type'', JStr ''null'')]) ''e'' = Inr ((''None'', None), [])
   \<and> parse_property [] (JObj [(''type'', JStr ''any''), (''default'', JBool True)]) ''f''
        = Inr ((''Any'', Some ''True''), [])"
proof -
  have d1: "default_repr [(''type'', JStr ''boolean'')] = None"
    and d2: "default_repr [(''format'', JStr ''int32''), (''type'', JStr ''integer'')] = None"
    and d3: "default_repr [(''type'', JStr ''string''), (''default'', JStr ''bar'')]
              = Some [CHR 0x27, CHR ''b'', CHR ''a'', CHR ''r'', CHR 0x27]"
    and d4: "default_repr [(''type'', JStr ''number''), (''default'', JInt 12)] = Some ''12''"
    and d5: "default_repr [(''type'', JStr ''null'')] = None"
    and d6: "default_repr [(''type'', JStr ''any''), (''default'', JBool True)] = Some ''True''"
    by code_simp+
  show ?thesis
    using simple_type_mapping [of "[(''type'', JStr ''boolean'')]" "''boolean''" "''bool''" "[]" "''a''"]
      simple_type_mapping [of "[(''format'', JStr ''int32''), (''type'', JStr ''integer'')]"
        "''integer''" "''int''" "[]" "''b''"]
      simple_type_mapping [of "[(''type'', JStr ''string''), (''default'', JStr ''bar'')]"
        "''string''" "''str''" "[]" "''c''"]
      simple_type_mapping [of "[(''type'', JStr ''number''), (''default'', JInt 12)]"
        "''number''" "''float''" "[]" "''d''"]
      simple_type_mapping [of "[(''type'', JStr ''null'')]" "''null''" "''None''" "[]" "''e''"]
      simple_type_mapping [of "[(''type'', JStr ''any''), (''default'', JBool True)]"
        "''any''" "''Any''" "[]" "''f''"]
    by (simp add: d1 d2 d3 d4 d5 d6 del: parse_property.simps)
qed

text \<open>
  Claim C9. A field schema with no \<^verbatim>\<open>type\<close> key whose \<^verbatim>\<open>$ref\<close> is one of the simple-type
  keywords resolves to the primitive type of that keyword, with the declared default,
  and not to a quoted reference to a record of that name.
\<close>

theorem ref_naming_simple_type:
  assumes "map_of kvs ''type'' = None"
    and "map_of kvs ''$ref'' = Some (JStr r)"
    and "map_of [(''any'', ''Any''), (''boolean'', ''bool''), (''integer'', ''int''),
                 (''null'', ''None''), (''number'', ''float''), (''string'', ''str'')] r = Some py"
  shows "parse_property reg (JObj kvs) name = Inr ((py, default_repr kvs), reg) \<and> py \<noteq> quoted r"
  using assms by (auto simp: lookup_type_def simple_types_def quoted_def split: if_splits)

text \<open>A reference to \<^verbatim>\<open>string\<close> with a default.\<close>

theorem ref_naming_simple_type_witness:
  "parse_property [] (JObj [(''$ref'', JStr ''string''), (''default'', JInt 7)]) ''foo''
     = Inr ((''str'', Some ''7''), [])
   \<and> ''str'' \<noteq> quoted ''string''"
proof -
  have d: "default_repr [(''$ref'', JStr ''string''), (''default'', JInt 7)] = Some ''7''"
    by code_simp
  show ?thesis
    using ref_naming_simple_type [of "[(''$ref'', JStr ''string''), (''default'', JInt 7)]"
        "''string''" "''str''" "[]" "''foo''"]
    by (simp add: d del: parse_property.simps)
qed

subsection \<open>The name sanitizer\<close>

text \<open>
  No name of \<open>python_keywords\<close> followed by an underscore is again in
  \<open>python_keywords\<close>: the names that end with an underscore are the eight
  double-underscore names, and none of them without its last character is a name.
\<close>

lemma marked_names:
  "filter (\<lambda>s. s \<noteq> [] \<and> last s = CHR ''_'') (kwlist @ builtins_dir) =
     [''__build_class__'', ''__debug__'', ''__doc__'', ''__import__'', ''__loader__'',
      ''__name__'', ''__package__'', ''__spec__'']"
  by (simp add: kwlist_def builtins_dir_def)

lemma unmarked_not_keywords:
  "list_all (\<lambda>s. s \<notin> set (kwlist @ builtins_dir))
     [''__build_class_'', ''__debug_'', ''__doc_'', ''__import_'', ''__loader_'',
      ''__name_'', ''__package_'', ''__spec_'']"
  by (simp add: kwlist_def builtins_dir_def)

lemma marked_not_keyword:
  assumes "k \<in> python_keywords"
  shows "k @ ''_'' \<notin> python_keywords"
proof
  assume "k @ ''_'' \<in> python_keywords"
  then have "k @ ''_'' \<in> set (filter (\<lambda>s. s \<noteq> [] \<and> last s = CHR ''_'') (kwlist @ builtins_dir))"
    by (simp add: python_keywords_def)
  then have "butlast (k @ ''_'') \<in> butlast ` set [''__build_class__'', ''__debug__'', ''__doc__'',
      ''__import__'', ''__loader__'', ''__name__'', ''__package__'', ''__spec__'']"
    unfolding marked_names by (rule imageI)
  then have "k \<in> set [''__build_class_'', ''__debug_'', ''__doc_'', ''__import_'', ''__loader_'',
      ''__name_'', ''__package_'', ''__spec_'']"
    by simp
  with unmarked_not_keywords have "k \<notin> set (kwlist @ builtins_dir)"
    by (auto simp only: list_all_iff)
  with assms show False by (simp add: python_keywords_def)
qed

lemma class_keyword: "''class'' \<in> python_keywords"
  by (simp add: python_keywords_def kwlist_def)

text \<open>
  Claim C6 says that for some reserved or builtin name, sanitized once, a second
  application appends a further underscore. There is no such name.
\<close>

theorem sanitizer_twice_appends_nothing:
  "\<not> (\<exists>k. k \<in> python_keywords \<and>
         valid_property_name (valid_property_name k) = valid_property_name k @ ''_'')"
  by (auto simp: valid_property_name_def dest: marked_not_keyword)

text \<open>
  Claim C6, amended. The sanitizer is idempotent: a second application returns the
  sanitized name unchanged, as for \<^verbatim>\<open>class\<close>, which becomes \<^verbatim>\<open>class_\<close> and stays so.
\<close>

theorem sanitizer_idempotent:
  "valid_property_name (valid_property_name name) = valid_property_name name
   \<and> valid_property_name (valid_property_name ''class'') = ''class_''"
  using class_keyword by (auto simp: valid_property_name_def dest: marked_not_keyword)

subsection \<open>Missing type information\<close>

text \<open>
  Claim C4 says that a node with a \<^verbatim>\<open>type\<close> or a \<^verbatim>\<open>$ref\<close> key never raises the error of
  missing type information. An array node has its \<^verbatim>\<open>type\<close> key, and resolving it raises
  \<^verbatim>\<open>KeyError('$ref')\<close> when its \<^verbatim>\<open>items\<close> node has neither key.
\<close>

theorem array_of_untyped_items_raises:
  "map_of [(''type'', JStr ''array''), (''items'', JObj [])] ''type'' \<noteq> None
   \<and> parse_property [] (JObj [(''type'', JStr ''array''), (''items'', JObj [])]) ''foo''
       = Inl (KeyError ''$ref'')"
  by (simp add: lookup_type_def)

text \<open>
  Claim C4, amended. The error of missing type information is \<^verbatim>\<open>KeyError('$ref')\<close>. A
  node (a \<^verbatim>\<open>dict\<close>) with neither key raises it. A node with one of the keys whose type is
  neither \<^verbatim>\<open>object\<close> nor \<^verbatim>\<open>array\<close> never raises it; an array node raises it only when
  the resolution of its \<^verbatim>\<open>items\<close> does, and an object node only when the resolution of
  one of its properties does. No caller catches an exception of the resolver. An array
  node returns the exception of its \<^verbatim>\<open>items\<close>. The loop over the properties returns the
  exception of a property at any position, once the properties before it have resolved.
  \<^verbatim>\<open>schema_as_string\<close> returns the exception of its loop over the properties (the
  docstring is formatted before the loop, so it has been formatted), and an object node
  returns the exception of \<^verbatim>\<open>schema_as_string\<close>. The loop over the schemas returns the
  exception of a schema at any position, once the schemas before it are registered, and
  then \<^verbatim>\<open>SchemaParser\<close> and \<^verbatim>\<open>write_models\<close> return it: there is no registry and no text.
\<close>

theorem missing_type_information:
  "(map_of kvs ''type'' = None \<and> map_of kvs ''$ref'' = None \<longrightarrow>
      parse_property reg (JObj kvs) name = Inl (KeyError ''$ref''))
   \<and> ((map_of kvs ''type'' \<noteq> None \<or> map_of kvs ''$ref'' \<noteq> None) \<and>
        lookup_type kvs \<noteq> Inr (JStr ''object'') \<and> lookup_type kvs \<noteq> Inr (JStr ''array'') \<longrightarrow>
      parse_property reg (JObj kvs) name \<noteq> Inl (KeyError ''$ref''))
   \<and> (lookup_type kvs = Inr (JStr ''array'') \<and>
        parse_property reg (JObj kvs) name = Inl (KeyError ''$ref'') \<longrightarrow>
      (\<exists>items. map_of kvs ''items'' = Some items \<and>
         parse_property reg items name = Inl (KeyError ''$ref'')))
   \<and> (lookup_type kvs = Inr (JStr ''object'') \<and>
        parse_property reg (JObj kvs) name = Inl (KeyError ''$ref'') \<longrightarrow>
      (\<exists>ps pname pschema reg'. map_of kvs ''properties'' = Some (JObj ps) \<and>
         (pname, pschema) \<in> set ps \<and>
         parse_property reg' pschema (valid_property_name pname) = Inl (KeyError ''$ref'')))
   \<and> (lookup_type akvs = Inr (JStr ''array'') \<and> map_of akvs ''items'' = Some items \<and>
        parse_property areg items aname = Inl e \<longrightarrow>
      parse_property areg (JObj akvs) aname = Inl e)
   \<and> (parse_properties preg ps1 properties = Inr (properties1, preg1) \<and>
        parse_property preg1 pschema (valid_property_name pname) = Inl e \<longrightarrow>
      parse_properties preg (ps1 @ (pname, pschema) # ps2) properties = Inl e)
   \<and> (format_docstring (case map_of okvs ''description'' of None \<Rightarrow> JStr [] | Some d \<Rightarrow> d) indent4
          = Inr docstring \<and>
        map_of okvs ''properties'' = Some (JObj ps) \<and> parse_properties oreg ps [] = Inl e \<longrightarrow>
      schema_as_string oreg (JObj okvs) class_name = Inl e)
   \<and> (lookup_type okvs = Inr (JStr ''object'') \<and>
        schema_as_string oreg (JObj okvs) (Some (''_'' @ oname)) = Inl e \<longrightarrow>
      parse_property oreg (JObj okvs) oname = Inl e)
   \<and> (init_loop sreg s1 = Inr sreg1 \<and> schema_as_string sreg1 schema (Some sname) = Inl e \<longrightarrow>
      init_loop sreg (s1 @ (sname, schema) # s2) = Inl e)
   \<and> (init_loop [] schemas = Inl e \<longrightarrow>
      SchemaParser (JObj schemas) = Inl e \<and> write_models (JObj schemas) = Inl e)"
proof -
  have 1: "parse_property reg (JObj kvs) name = Inl (KeyError ''$ref'')"
    if "map_of kvs ''type'' = None \<and> map_of kvs ''$ref'' = None"
    using that by (simp add: lookup_type_def)
  have 2: "parse_property reg (JObj kvs) name \<noteq> Inl (KeyError ''$ref'')"
    if a: "(map_of kvs ''type'' \<noteq> None \<or> map_of kvs ''$ref'' \<noteq> None) \<and>
        lookup_type kvs \<noteq> Inr (JStr ''object'') \<and> lookup_type kvs \<noteq> Inr (JStr ''array'')"
  proof -
    from a obtain t where t: "lookup_type kvs = Inr t"
      by (auto simp: lookup_type_def split: option.splits)
    with a have "t \<noteq> JStr ''object''" "t \<noteq> JStr ''array''" by auto
    from parse_property_other [OF t this] show ?thesis
      by (auto split: sum.splits option.splits dest: simple_type_of_error)
  qed
  have 3: "\<exists>items. map_of kvs ''items'' = Some items \<and>
         parse_property reg items name = Inl (KeyError ''$ref'')"
    if "lookup_type kvs = Inr (JStr ''array'') \<and>
        parse_property reg (JObj kvs) name = Inl (KeyError ''$ref'')"
    using that
    by (auto simp: parse_property_array simp del: parse_property.simps
        split: option.splits sum.splits prod.splits)
  have 4: "\<exists>ps pname pschema reg'. map_of kvs ''properties'' = Some (JObj ps) \<and>
         (pname, pschema) \<in> set ps \<and>
         parse_property reg' pschema (valid_property_name pname) = Inl (KeyError ''$ref'')"
    if a: "lookup_type kvs = Inr (JStr ''object'') \<and>
        parse_property reg (JObj kvs) name = Inl (KeyError ''$ref'')"
  proof -
    from a have "schema_as_string reg (JObj kvs) (Some (''_'' @ name)) = Inl (KeyError ''$ref'')"
      by (auto simp: parse_property_object simp del: parse_property.simps schema_as_string.simps
          split: sum.splits)
    from schema_as_string_key_error [OF this] obtain ps
      where ps: "map_of kvs ''properties'' = Some (JObj ps)"
        and "parse_properties reg ps [] = Inl (KeyError ''$ref'')" by auto
    from parse_properties_error [OF this(2)] ps show ?thesis
      by blast
  qed
  have 5: "parse_property areg (JObj akvs) aname = Inl e"
    if "lookup_type akvs = Inr (JStr ''array'') \<and> map_of akvs ''items'' = Some items \<and>
        parse_property areg items aname = Inl e"
    using that by (simp add: parse_property_array del: parse_property.simps)
  have 6: "parse_properties preg (ps1 @ (pname, pschema) # ps2) properties = Inl e"
    if "parse_properties preg ps1 properties = Inr (properties1, preg1) \<and>
        parse_property preg1 pschema (valid_property_name pname) = Inl e"
    using that by (simp add: parse_properties_append del: parse_property.simps)
  have 7: "schema_as_string oreg (JObj okvs) class_name = Inl e"
    if "format_docstring (case map_of okvs ''description'' of None \<Rightarrow> JStr [] | Some d \<Rightarrow> d) indent4
          = Inr docstring \<and>
        map_of okvs ''properties'' = Some (JObj ps) \<and> parse_properties oreg ps [] = Inl e"
    using that unfolding schema_as_string_unfold by (simp add: properties_of_def)
  have 8: "parse_property oreg (JObj okvs) oname = Inl e"
    if "lookup_type okvs = Inr (JStr ''object'') \<and>
        schema_as_string oreg (JObj okvs) (Some (''_'' @ oname)) = Inl e"
    using that by (simp add: parse_property_object del: parse_property.simps schema_as_string.simps)
  have 9: "init_loop sreg (s1 @ (sname, schema) # s2) = Inl e"
    if "init_loop sreg s1 = Inr sreg1 \<and> schema_as_string sreg1 schema (Some sname) = Inl e"
    using that by (simp add: init_loop_append del: schema_as_string.simps)
  have 10: "SchemaParser (JObj schemas) = Inl e \<and> write_models (JObj schemas) = Inl e"
    if "init_loop [] schemas = Inl e"
    using that by (simp add: SchemaParser_def write_models_def)
  show ?thesis
    apply (intro conjI impI)
    subgoal by (rule 1)
    subgoal by (rule 2)
    subgoal by (rule 3)
    subgoal by (rule 4)
    subgoal by (rule 5)
    subgoal by (rule 6)
    subgoal by (rule 7)
    subgoal by (rule 8)
    subgoal by (rule 9)
    subgoal by (drule 10) simp
    subgoal by (drule 10) simp
    done
qed

text \<open>
  A node with only a description. The schemas \<^verbatim>\<open>A\<close>, \<^verbatim>\<open>B\<close>, \<^verbatim>\<open>C\<close>, where the second
  property of \<^verbatim>\<open>B\<close> is an empty node: the first property resolves, the second raises, and
  the error goes through the two loops to \<^verbatim>\<open>write_models\<close>, though \<^verbatim>\<open>A\<close> was registered.
  The same with \<^verbatim>\<open>B\<close> of one property. An object whose property is an array of empty
  nodes; a reference; an array and an object with an empty nested node.
\<close>

theorem missing_type_information_witness:
  "parse_property [] (JObj [(''description'', JStr ''x'')]) ''foo'' = Inl (KeyError ''$ref'')
   \<and> init_loop [] [(''A'', JObj [])] = Inr [(JStr ''A'', ''class A(pydantic.BaseModel):\<newline>    pass\<newline>'')]
   \<and> parse_properties [(JStr ''A'', ''class A(pydantic.BaseModel):\<newline>    pass\<newline>'')]
        [(''w'', JObj [(''type'', JStr ''string'')]), (''x'', JObj []), (''y'', JObj [(''type'', JStr ''string'')])] []
        = Inl (KeyError ''$ref'')
   \<and> schema_as_string [(JStr ''A'', ''class A(pydantic.BaseModel):\<newline>    pass\<newline>'')]
        (JObj [(''properties'', JObj [(''w'', JObj [(''type'', JStr ''string'')]), (''x'', JObj []),
                                       (''y'', JObj [(''type'', JStr ''string'')])])]) (Some ''B'')
        = Inl (KeyError ''$ref'')
   \<and> SchemaParser (JObj [(''A'', JObj []),
        (''B'', JObj [(''properties'', JObj [(''w'', JObj [(''type'', JStr ''string'')]), (''x'', JObj []),
                                             (''y'', JObj [(''type'', JStr ''string'')])])]),
        (''C'', JObj [])])
        = Inl (KeyError ''$ref'')
   \<and> write_models (JObj [(''A'', JObj []),
        (''B'', JObj [(''properties'', JObj [(''w'', JObj [(''type'', JStr ''string'')]), (''x'', JObj []),
                                             (''y'', JObj [(''type'', JStr ''string'')])])]),
        (''C'', JObj [])])
        = Inl (KeyError ''$ref'')
   \<and> write_models (JObj [(''A'', JObj []), (''B'', JObj [(''properties'', JObj [(''x'', JObj [])])])])
        = Inl (KeyError ''$ref'')
   \<and> parse_property [] (JObj [(''type'', JStr ''object''),
        (''properties'', JObj [(''bar'', JObj [(''type'', JStr ''array''), (''items'', JObj [])])])]) ''foo''
        = Inl (KeyError ''$ref'')
   \<and> lookup_type [(''$ref'', JStr ''Other'')] = Inr (JStr ''Other'')
   \<and> parse_property [] (JObj [(''$ref'', JStr ''Other'')]) ''foo'' \<noteq> Inl (KeyError ''$ref'')
   \<and> (\<exists>items. map_of [(''type'', JStr ''array''), (''items'', JObj [])] ''items'' = Some items \<and>
         parse_property [] items ''foo'' = Inl (KeyError ''$ref''))
   \<and> (\<exists>ps pname pschema reg'.
         map_of [(''type'', JStr ''object''), (''properties'', JObj [(''bar'', JObj [])])] ''properties''
           = Some (JObj ps) \<and>
         (pname, pschema) \<in> set ps \<and>
         parse_property reg' pschema (valid_property_name pname) = Inl (KeyError ''$ref''))"
proof -
  let ?e = "KeyError ''$ref''"
  let ?str = "JObj [(''type'', JStr ''string'')]"
  let ?kA = "[(''description'', JStr ''x'')]"
  let ?kB = "[(''type'', JStr ''array''), (''items'', JObj [])]"
  let ?kC = "[(''type'', JStr ''object''), (''properties'', JObj [(''bar'', JObj [])])]"
  let ?kD = "[(''$ref'', JStr ''Other'')]"
  let ?kE = "[(''type'', JStr ''object''), (''properties'', JObj [(''bar'', JObj ?kB)])]"
  let ?regA = "[(JStr ''A'', ''class A(pydantic.BaseModel):\<newline>    pass\<newline>'')]"
  let ?ps = "[(''w'', ?str), (''x'', JObj []), (''y'', ?str)]"
  let ?oB = "[(''properties'', JObj ?ps)]"
  let ?oB' = "[(''properties'', JObj [(''x'', JObj [])])]"
  have v: "valid_property_name ''foo'' = ''foo''" "valid_property_name ''bar'' = ''bar''"
    "valid_property_name ''w'' = ''w''" "valid_property_name ''x'' = ''x''"
    by (simp_all add: valid_property_name_def python_keywords_def kwlist_def builtins_dir_def)
  have n: "map_of [] ''type'' = None \<and> map_of [] ''$ref'' = (None :: json option)"
    by simp
  have a1: "map_of ?kA ''type'' = None \<and> map_of ?kA ''$ref'' = None"
    by simp
  have i1: "init_loop [] [(''A'', JObj [])] = Inr ?regA"
    by (simp add: format_docstring_def py_get_def model_id_def class_text_def indent4_eq)
  have p1: "parse_properties ?regA [(''w'', ?str)] [] = Inr ([(''w'', ''str'', None)], ?regA)"
    by (simp add: v lookup_type_def simple_types_def default_repr_def py_get_def)
  have p1': "parse_properties ?regA [] [] = Inr ([], ?regA)"
    by simp
  have dB: "format_docstring (case map_of ?oB ''description'' of None \<Rightarrow> JStr [] | Some d \<Rightarrow> d) indent4 = Inr []"
    by (simp add: format_docstring_def)
  have dB': "format_docstring (case map_of ?oB' ''description'' of None \<Rightarrow> JStr [] | Some d \<Rightarrow> d) indent4 = Inr []"
    by (simp add: format_docstring_def)
  have dE: "format_docstring (case map_of ?kE ''description'' of None \<Rightarrow> JStr [] | Some d \<Rightarrow> d) indent4 = Inr []"
    by (simp add: format_docstring_def)
  have mB: "map_of ?oB ''properties'' = Some (JObj ?ps)" "map_of ?oB' ''properties'' = Some (JObj [(''x'', JObj [])])"
    "map_of ?kE ''properties'' = Some (JObj [(''bar'', JObj ?kB)])"
    by simp_all
  have b1: "lookup_type ?kB = Inr (JStr ''array'')" "map_of ?kB ''items'' = Some (JObj [])"
    by (simp_all add: lookup_type_def)
  have c1: "lookup_type ?kC = Inr (JStr ''object'')" "lookup_type ?kE = Inr (JStr ''object'')"
    by (simp_all add: lookup_type_def)
  have c2: "parse_property [] (JObj ?kC) ''foo'' = Inl ?e"
    by (simp add: v lookup_type_def format_docstring_def)
  have d1: "lookup_type ?kD = Inr (JStr ''Other'')"
    by (simp add: lookup_type_def)
  have d2: "(map_of ?kD ''type'' \<noteq> None \<or> map_of ?kD ''$ref'' \<noteq> None) \<and>
        lookup_type ?kD \<noteq> Inr (JStr ''object'') \<and> lookup_type ?kD \<noteq> Inr (JStr ''array'')"
    by (simp add: lookup_type_def)
  note M = missing_type_information
  note M1 = M [THEN conjunct1, rule_format]
  note M2 = M [THEN conjunct2, THEN conjunct1, rule_format]
  note M3 = M [THEN conjunct2, THEN conjunct2, THEN conjunct1, rule_format]
  note M4 = M [THEN conjunct2, THEN conjunct2, THEN conjunct2, THEN conjunct1, rule_format]
  note M5 = M [THEN conjunct2, THEN conjunct2, THEN conjunct2, THEN conjunct2, THEN conjunct1, rule_format]
  note M6 = M [THEN conjunct2, THEN conjunct2, THEN conjunct2, THEN conjunct2, THEN conjunct2,
      THEN conjunct1, rule_format]
  note M7 = M [THEN conjunct2, THEN conjunct2, THEN conjunct2, THEN conjunct2, THEN conjunct2,
      THEN conjunct2, THEN conjunct1, rule_format]
  note M8 = M [THEN conjunct2, THEN conjunct2, THEN conjunct2, THEN conjunct2, THEN conjunct2,
      THEN conjunct2, THEN conjunct2, THEN conjunct1, rule_format]
  note M9 = M [THEN conjunct2, THEN conjunct2, THEN conjunct2, THEN conjunct2, THEN conjunct2,
      THEN conjunct2, THEN conjunct2, THEN conjunct2, THEN conjunct1, rule_format]
  note M10 = M [THEN conjunct2, THEN conjunct2, THEN conjunct2, THEN conjunct2, THEN conjunct2,
      THEN conjunct2, THEN conjunct2, THEN conjunct2, THEN conjunct2, rule_format]
  have r1: "parse_property [] (JObj ?kA) ''foo'' = Inl ?e"
    by (rule M1 [OF a1])
  have x: "parse_property reg (JObj []) name = Inl ?e" for reg name
    by (rule M1 [OF n])
  have r2: "parse_properties ?regA ([(''w'', ?str)] @ (''x'', JObj []) # [(''y'', ?str)]) [] = Inl ?e"
    by (rule M6 [OF conjI [OF p1 x]])
  then have r2': "parse_properties ?regA ?ps [] = Inl ?e"
    by (simp only: append_Cons append_Nil)
  have r3: "schema_as_string ?regA (JObj ?oB) (Some ''B'') = Inl ?e"
    by (rule M7 [OF conjI [OF dB conjI [OF mB(1) r2']]])
  have r4: "init_loop [] ([(''A'', JObj [])] @ (''B'', JObj ?oB) # [(''C'', JObj [])]) = Inl ?e"
    by (rule M9 [OF conjI [OF i1 r3]])
  then have r4': "init_loop [] [(''A'', JObj []), (''B'', JObj ?oB), (''C'', JObj [])] = Inl ?e"
    by (simp only: append_Cons append_Nil)
  have r5: "SchemaParser (JObj [(''A'', JObj []), (''B'', JObj ?oB), (''C'', JObj [])]) = Inl ?e
      \<and> write_models (JObj [(''A'', JObj []), (''B'', JObj ?oB), (''C'', JObj [])]) = Inl ?e"
    by (rule M10 [OF r4'])
  have s2: "parse_properties ?regA ([] @ (''x'', JObj []) # []) [] = Inl ?e"
    by (rule M6 [OF conjI [OF p1' x]])
  then have s2': "parse_properties ?regA [(''x'', JObj [])] [] = Inl ?e"
    by (simp only: append_Cons append_Nil)
  have s3: "schema_as_string ?regA (JObj ?oB') (Some ''B'') = Inl ?e"
    by (rule M7 [OF conjI [OF dB' conjI [OF mB(2) s2']]])
  have s4: "init_loop [] ([(''A'', JObj [])] @ (''B'', JObj ?oB') # []) = Inl ?e"
    by (rule M9 [OF conjI [OF i1 s3]])
  then have s4': "init_loop [] [(''A'', JObj []), (''B'', JObj ?oB')] = Inl ?e"
    by (simp only: append_Cons append_Nil)
  have s5: "write_models (JObj [(''A'', JObj []), (''B'', JObj ?oB')]) = Inl ?e"
    by (rule M10 [OF s4', THEN conjunct2])
  have t1: "parse_property [] (JObj ?kB) (valid_property_name ''bar'') = Inl ?e"
    by (rule M5 [OF conjI [OF b1(1) conjI [OF b1(2) x]]])
  have t0: "parse_properties [] [] [] = Inr ([], [])"
    by simp
  have t2: "parse_properties [] ([] @ (''bar'', JObj ?kB) # []) [] = Inl ?e"
    by (rule M6 [OF conjI [OF t0 t1]])
  then have t2': "parse_properties [] [(''bar'', JObj ?kB)] [] = Inl ?e"
    by (simp only: append_Cons append_Nil)
  have t3: "schema_as_string [] (JObj ?kE) (Some (''_'' @ ''foo'')) = Inl ?e"
    by (rule M7 [OF conjI [OF dE conjI [OF mB(3) t2']]])
  have t4: "parse_property [] (JObj ?kE) ''foo'' = Inl ?e"
    by (rule M8 [OF conjI [OF c1(2) t3]])
  have r6: "parse_property [] (JObj ?kD) ''foo'' \<noteq> Inl ?e"
    by (rule M2 [OF d2])
  have b2: "parse_property [] (JObj ?kB) ''foo'' = Inl ?e"
    by (rule M5 [OF conjI [OF b1(1) conjI [OF b1(2) x]]])
  have r7: "\<exists>items. map_of ?kB ''items'' = Some items \<and> parse_property [] items ''foo'' = Inl ?e"
    by (rule M3 [OF conjI [OF b1(1) b2]])
  have r8: "\<exists>ps pname pschema reg'. map_of ?kC ''properties'' = Some (JObj ps) \<and>
         (pname, pschema) \<in> set ps \<and>
         parse_property reg' pschema (valid_property_name pname) = Inl ?e"
    by (rule M4 [OF conjI [OF c1(1) c2]])
  from r1 i1 r2' r3 r5 s5 t4 d1 r6 r7 r8 show ?thesis
    by (intro conjI) simp_all
qed

subsection \<open>Arrays\<close>

text \<open>
  Claim C3 says that an array whose items carry \<^verbatim>\<open>$ref\<close> r resolves to the list of a
  reference to r. When r is the name of a simple type the items resolve to that
  primitive: a list of \<^verbatim>\<open>str\<close>, not of a reference to a record \<^verbatim>\<open>string\<close>.
\<close>

theorem array_of_ref_to_simple_type:
  "parse_property [] (JObj [(''type'', JStr ''array''), (''items'', JObj [(''$ref'', JStr ''string'')])]) ''foo''
     = Inr ((''List[str]'', None), [])
   \<and> ''List[str]'' \<noteq> ''List['' @ quoted ''string'' @ '']''"
  by (simp add: lookup_type_def simple_types_def default_repr_def py_get_def quoted_def)

text \<open>
  Claim C3, amended. A field schema of type \<^verbatim>\<open>array\<close> resolves its \<^verbatim>\<open>items\<close> as a field
  schema with the same name, wraps the type as \<^verbatim>\<open>List[...]\<close> and returns the default and
  the registry of the items unchanged; an error of the items is the error of the
  array. Items with no \<^verbatim>\<open>type\<close> key and a \<^verbatim>\<open>$ref\<close> r that is no simple-type keyword and
  neither \<^verbatim>\<open>object\<close> nor \<^verbatim>\<open>array\<close> give the list of a quoted reference to r.
\<close>

theorem array_wraps_items:
  assumes "map_of kvs ''type'' = Some (JStr ''array'')"
  shows "(map_of kvs ''items'' = Some items \<and> parse_property reg items name = Inr ((ty, d), reg') \<longrightarrow>
            parse_property reg (JObj kvs) name = Inr ((''List['' @ ty @ '']'', d), reg'))
       \<and> (map_of kvs ''items'' = Some items \<and> parse_property reg items name = Inl e \<longrightarrow>
            parse_property reg (JObj kvs) name = Inl e)
       \<and> (map_of kvs ''items'' = Some (JObj ikvs) \<and> map_of ikvs ''type'' = None \<and>
          map_of ikvs ''$ref'' = Some (JStr r) \<and> map_of simple_types r = None \<and>
          r \<noteq> ''object'' \<and> r \<noteq> ''array'' \<longrightarrow>
            parse_property reg (JObj kvs) name = Inr ((''List['' @ quoted r @ '']'', None), reg))"
proof -
  from assms have a: "lookup_type kvs = Inr (JStr ''array'')"
    by (rule lookup_type_type)
  show ?thesis
  proof (intro conjI impI)
    assume "map_of kvs ''items'' = Some items \<and> parse_property reg items name = Inr ((ty, d), reg')"
    then show "parse_property reg (JObj kvs) name = Inr ((''List['' @ ty @ '']'', d), reg')"
      by (simp add: parse_property_array [OF a] del: parse_property.simps)
  next
    assume "map_of kvs ''items'' = Some items \<and> parse_property reg items name = Inl e"
    then show "parse_property reg (JObj kvs) name = Inl e"
      by (simp add: parse_property_array [OF a] del: parse_property.simps)
  next
    assume b: "map_of kvs ''items'' = Some (JObj ikvs) \<and> map_of ikvs ''type'' = None \<and>
          map_of ikvs ''$ref'' = Some (JStr r) \<and> map_of simple_types r = None \<and>
          r \<noteq> ''object'' \<and> r \<noteq> ''array''"
    then have "lookup_type ikvs = Inr (JStr r)"
      by (simp add: lookup_type_ref)
    from parse_property_other [OF this] b
    have "parse_property reg (JObj ikvs) name = Inr ((quoted r, None), reg)"
      by simp
    with b show "parse_property reg (JObj kvs) name = Inr ((''List['' @ quoted r @ '']'', None), reg)"
      by (simp add: parse_property_array [OF a] del: parse_property.simps)
  qed
qed

text \<open>Items of a simple type with a default, items with no type, and a reference.\<close>

theorem array_wraps_items_witness:
  "parse_property [] (JObj [(''type'', JStr ''string''), (''default'', JInt 5)]) ''foo''
     = Inr ((''str'', Some ''5''), [])
   \<and> parse_property [] (JObj [(''items'', JObj [(''type'', JStr ''string''), (''default'', JInt 5)]),
         (''type'', JStr ''array'')]) ''foo''
     = Inr ((''List[str]'', Some ''5''), [])
   \<and> parse_property [] (JObj []) ''foo'' = Inl (KeyError ''$ref'')
   \<and> parse_property [] (JObj [(''items'', JObj []), (''type'', JStr ''array'')]) ''foo''
     = Inl (KeyError ''$ref'')
   \<and> parse_property [] (JObj [(''items'', JObj [(''$ref'', JStr ''OtherName'')]),
         (''type'', JStr ''array'')]) ''foo''
     = Inr ((''List['' @ quoted ''OtherName'' @ '']'', None), [])"
proof -
  let ?i1 = "JObj [(''type'', JStr ''string''), (''default'', JInt 5)]"
  let ?k1 = "[(''items'', ?i1), (''type'', JStr ''array'')]"
  let ?k2 = "[(''items'', JObj []), (''type'', JStr ''array'')]"
  let ?ik3 = "[(''$ref'', JStr ''OtherName'')]"
  let ?k3 = "[(''items'', JObj ?ik3), (''type'', JStr ''array'')]"
  have five: "int_str 5 = ''5''"
    by code_simp
  have p1: "parse_property [] ?i1 ''foo'' = Inr ((''str'', Some ''5''), [])"
    by (simp add: lookup_type_def simple_types_def default_repr_def py_get_def five)
  have p2: "parse_property [] (JObj []) ''foo'' = Inl (KeyError ''$ref'')"
    by (simp add: lookup_type_def)
  have h3: "map_of ?k3 ''items'' = Some (JObj ?ik3) \<and> map_of ?ik3 ''type'' = None \<and>
          map_of ?ik3 ''$ref'' = Some (JStr ''OtherName'') \<and> map_of simple_types ''OtherName'' = None \<and>
          ''OtherName'' \<noteq> ''object'' \<and> ''OtherName'' \<noteq> ''array''"
    by (simp add: simple_types_def)
  have r1: "parse_property [] (JObj ?k1) ''foo'' = Inr ((''List[str]'', Some ''5''), [])"
    using array_wraps_items [where kvs = ?k1 and items = ?i1 and reg = "[]" and name = "''foo''"
        and ty = "''str''" and d = "Some ''5''" and reg' = "[]"] p1
    by (simp del: parse_property.simps)
  have r2: "parse_property [] (JObj ?k2) ''foo'' = Inl (KeyError ''$ref'')"
    using array_wraps_items [where kvs = ?k2 and items = "JObj []" and reg = "[]" and name = "''foo''"
        and e = "KeyError ''$ref''"] p2
    by (simp del: parse_property.simps)
  have r3: "parse_property [] (JObj ?k3) ''foo'' = Inr ((''List['' @ quoted ''OtherName'' @ '']'', None), [])"
    using array_wraps_items [where kvs = ?k3 and ikvs = ?ik3 and r = "''OtherName''" and reg = "[]"
        and name = "''foo''"] h3
    by (simp del: parse_property.simps)
  from p1 r1 p2 r2 r3 show ?thesis
    by (intro conjI)
qed

subsection \<open>Nested objects\<close>




subsection \<open>Nested objects with an explicit id\<close>




subsection \<open>Invariants of the registry\<close>

text \<open>
  The text of a type or of a default never ends with a newline, so every property
  that \<^verbatim>\<open>parse_property\<close> returns has a closed line. Whatever holds of the registry and
  is kept by one assignment of a class text is kept by the three functions and by
  the loop of \<^verbatim>\<open>__init__\<close>.
\<close>

lemma digit_char_not_newline: "d < 10 \<Longrightarrow> digit_char d \<noteq> CHR ''\<newline>''"
proof
  assume "d < 10" and "digit_char d = CHR ''\<newline>''"
  then have "(of_char (char_of (48 + d)) :: nat) = of_char (CHR ''\<newline>'')"
    by (simp add: digit_char_def)
  with \<open>d < 10\<close> show False
    by simp
qed

lemma nat_digits_last: "nat_digits n \<noteq> [] \<and> last (nat_digits n) \<noteq> CHR ''\<newline>''"
proof (induction n rule: nat_digits.induct)
  case (1 n)
  show ?case
    by (subst nat_digits.simps, subst (2) nat_digits.simps) (simp add: digit_char_not_newline)
qed

lemma int_str_last: "int_str i \<noteq> [] \<and> last (int_str i) \<noteq> CHR ''\<newline>''"
  using nat_digits_last by (simp add: int_str_def)

lemma repr_str_last: "repr_str s \<noteq> [] \<and> last (repr_str s) \<noteq> CHR ''\<newline>''"
  by (simp add: repr_str_def Let_def repr_quote_def)

lemma py_repr_last: "py_repr v \<noteq> [] \<and> last (py_repr v) \<noteq> CHR ''\<newline>''"
  by (cases v) (simp_all add: int_str_last repr_str_last)

lemma default_repr_last:
  assumes "default_repr kvs = Some d"
  shows "d \<noteq> [] \<and> last d \<noteq> CHR ''\<newline>''"
proof -
  from assms obtain v where "d = py_repr v"
    by (auto simp: default_repr_def simp del: py_repr.simps split: json.splits)
  with py_repr_last [of v] show ?thesis
    by simp
qed

lemma simple_types_last: "map_of simple_types t = Some py \<Longrightarrow> py \<noteq> [] \<and> last py \<noteq> CHR ''\<newline>''"
  by (auto simp: simple_types_def split: if_splits)

lemma property_types:
  shows "parse_property reg schema name = Inr ((ty, d), reg') \<Longrightarrow> closed_line (name, ty, d)"
    and "schema_as_string reg schema cn = Inr reg' \<Longrightarrow> True"
    and "parse_properties reg ps acc = Inr (props, reg') \<Longrightarrow> list_all closed_line acc \<Longrightarrow>
           list_all closed_line props"
proof (induction reg schema name and reg schema cn and reg ps acc
    arbitrary: ty d reg' and reg' and props reg'
    rule: parse_property_schema_as_string_parse_properties.induct)
  case (1 reg kvs name)
  from "1.prems"(1) obtain t where t: "lookup_type kvs = Inr t"
    by (auto split: sum.splits)
  from "1.prems"(1) t obtain st where st: "simple_type_of t = Inr st"
    by (auto split: sum.splits)
  show ?case
  proof (cases st)
    case (Some py)
    with st have "map_of simple_types (case t of JStr s \<Rightarrow> s | _ \<Rightarrow> []) = Some py"
      by (cases t) auto
    from simple_types_last [OF this] "1.prems" t st Some show ?thesis
      by (auto simp: closed_line_def dest: default_repr_last split: option.splits)
  next
    case None
    show ?thesis
    proof (cases "t = JStr ''object''")
      case True
      with "1.prems"(1) t st None show ?thesis
        by (auto simp: closed_line_def quoted_def simp del: schema_as_string.simps split: sum.splits)
    next
      case False
      show ?thesis
      proof (cases "t = JStr ''array''")
        case True
        with "1.prems"(1) t st None False obtain items ty' where
          i: "map_of kvs ''items'' = Some items" and p: "parse_property reg items name = Inr ((ty', d), reg')"
          and ty: "ty = ''List['' @ ty' @ '']''"
          by (auto split: sum.splits option.splits prod.splits)
        from "1.IH"(2) [OF t st None False True i p] ty show ?thesis
          by (simp add: closed_line_def)
      next
        case F2: False
        with "1.prems" t st None False show ?thesis
          by (auto simp: closed_line_def quoted_def)
      qed
    qed
  qed
next
  case (6 reg pname pschema rest properties)
  from "6.prems"(1) obtain ty d reg1 where
    a: "parse_property reg pschema (valid_property_name pname) = Inr ((ty, d), reg1)"
    and b: "parse_properties reg1 rest (properties @ [(valid_property_name pname, ty, d)]) = Inr (props, reg')"
    by (auto split: sum.splits prod.splits)
  from "6.IH"(1) [OF a] "6.prems"(2)
  have "list_all closed_line (properties @ [(valid_property_name pname, ty, d)])"
    by simp
  from "6.IH"(2) [OF a refl refl b this] show ?case .
qed simp_all

lemma registry_invariant:
  fixes I :: "registry \<Rightarrow> bool"
  assumes step: "\<And>reg k i text doc props. I reg \<Longrightarrow> format_docstring text indent4 = Inr doc \<Longrightarrow>
                   list_all closed_line props \<Longrightarrow> I (AList.update k (class_text i doc props) reg)"
  shows "parse_property reg schema name = Inr (r, reg') \<Longrightarrow> I reg \<Longrightarrow> I reg'"
    and "schema_as_string reg schema cn = Inr reg' \<Longrightarrow> I reg \<Longrightarrow> I reg'"
    and "parse_properties reg ps acc = Inr (props, reg') \<Longrightarrow> I reg \<Longrightarrow> I reg'"
proof (induction reg schema name and reg schema cn and reg ps acc
    arbitrary: r reg' and reg' and props reg'
    rule: parse_property_schema_as_string_parse_properties.induct)
  case (1 reg kvs name)
  from "1.prems"(1) obtain t where t: "lookup_type kvs = Inr t"
    by (auto split: sum.splits)
  from "1.prems"(1) t obtain st where st: "simple_type_of t = Inr st"
    by (auto split: sum.splits)
  show ?case
  proof (cases st)
    case (Some py)
    with "1.prems" t st show ?thesis by auto
  next
    case None
    show ?thesis
    proof (cases "t = JStr ''object''")
      case True
      with "1.prems"(1) t st None have "schema_as_string reg (JObj kvs) (Some (''_'' @ name)) = Inr reg'"
        by (auto simp del: schema_as_string.simps split: sum.splits)
      from "1.IH"(1) [OF t st None True this "1.prems"(2)] show ?thesis .
    next
      case False
      show ?thesis
      proof (cases "t = JStr ''array''")
        case True
        with "1.prems"(1) t st None False obtain items ty d where
          i: "map_of kvs ''items'' = Some items" and "parse_property reg items name = Inr ((ty, d), reg')"
          by (auto split: sum.splits option.splits prod.splits)
        from "1.IH"(2) [OF t st None False True i this(2) "1.prems"(2)] show ?thesis .
      next
        case F2: False
        with "1.prems" t st None False show ?thesis by auto
      qed
    qed
  qed
next
  case (3 reg kvs class_name)
  from schema_as_string_result [OF "3.prems"(1)] obtain docstring properties reg_mid k where
    d: "format_docstring (case map_of kvs ''description'' of None \<Rightarrow> JStr [] | Some d \<Rightarrow> d) indent4 = Inr docstring"
    and p: "properties_of reg kvs = Inr (properties, reg_mid)"
    and r: "reg' = AList.update k
             (class_text (model_id (py_get kvs ''id'') class_name properties) docstring properties) reg_mid"
    by blast
  have "I reg_mid \<and> list_all closed_line properties"
  proof (cases "map_of kvs ''properties''")
    case None
    with p "3.prems"(2) show ?thesis by (auto simp: properties_of_def)
  next
    case (Some v)
    with p obtain ps where v: "v = JObj ps" and pp: "parse_properties reg ps [] = Inr (properties, reg_mid)"
      by (auto simp: properties_of_def split: json.splits)
    from "3.IH" [OF d Some v pp "3.prems"(2)] property_types(3) [OF pp] show ?thesis
      by simp
  qed
  then have "I reg_mid" "list_all closed_line properties"
    by simp_all
  from step [OF this(1) d this(2)] show ?case unfolding r .
next
  case (6 reg pname pschema rest properties)
  from "6.prems"(1) obtain ty d reg1 where
    a: "parse_property reg pschema (valid_property_name pname) = Inr ((ty, d), reg1)"
    and b: "parse_properties reg1 rest (properties @ [(valid_property_name pname, ty, d)]) = Inr (props, reg')"
    by (auto split: sum.splits prod.splits)
  from "6.IH"(1) [OF a "6.prems"(2)] have "I reg1" .
  from "6.IH"(2) [OF a refl refl b this] show ?case .
qed simp_all

lemma init_loop_invariant:
  fixes I :: "registry \<Rightarrow> bool"
  assumes step: "\<And>reg k i text doc props. I reg \<Longrightarrow> format_docstring text indent4 = Inr doc \<Longrightarrow>
                   list_all closed_line props \<Longrightarrow> I (AList.update k (class_text i doc props) reg)"
  shows "init_loop reg schemas = Inr reg' \<Longrightarrow> I reg \<Longrightarrow> I reg'"
proof (induction schemas arbitrary: reg)
  case Nil
  then show ?case by simp
next
  case (Cons p schemas)
  obtain name schema where p: "p = (name, schema)" by (cases p)
  with Cons.prems(1) obtain reg1 where a: "schema_as_string reg schema (Some name) = Inr reg1"
    and b: "init_loop reg1 schemas = Inr reg'"
    by (auto split: sum.splits)
  from registry_invariant(2) [of I, OF step a Cons.prems(2)] have "I reg1" .
  from Cons.IH [OF b this] show ?case .
qed

lemma docstring_form:
  "format_docstring text ind = Inr doc \<Longrightarrow> doc = [] \<or> (\<exists>b. doc = b @ triple_quote @ ''\<newline>'')"
  by (auto simp: format_docstring_def Let_def split: if_splits json.splits)

lemma property_line_last:
  assumes "closed_line p"
  shows "property_line p \<noteq> [] \<and> last (property_line p) \<noteq> CHR ''\<newline>''"
proof -
  obtain name ty d where p: "p = (name, ty, d)" by (cases p)
  with assms show ?thesis
    by (cases d) (auto simp: closed_line_def property_line_def)
qed

lemma class_text_form:
  assumes "format_docstring text ind = Inr doc" and "list_all closed_line props"
  shows "\<exists>body. class_text i doc props = ''class '' @ body @ ''\<newline>'' \<and>
           body \<noteq> [] \<and> last body \<noteq> CHR ''\<newline>''"
proof (cases props rule: rev_cases)
  case Nil
  show ?thesis
  proof (cases "doc = []")
    case True
    let ?body = "py_str i @ ''(pydantic.BaseModel):\<newline>'' @ indent4 @ ''pass''"
    from True Nil have "class_text i doc props = ''class '' @ ?body @ ''\<newline>''"
      by (simp add: class_text_def)
    moreover have "?body \<noteq> []" "last ?body \<noteq> CHR ''\<newline>''"
      by simp_all
    ultimately show ?thesis
      by (intro exI [of _ ?body] conjI)
  next
    case False
    with docstring_form [OF assms(1)] obtain b where b: "doc = b @ triple_quote @ ''\<newline>''"
      by auto
    let ?body = "py_str i @ ''(pydantic.BaseModel):\<newline>'' @ b @ triple_quote"
    from b Nil have "class_text i doc props = ''class '' @ ?body @ ''\<newline>''"
      by (simp add: class_text_def)
    moreover have "?body \<noteq> []" "last ?body \<noteq> CHR ''\<newline>''"
      by (simp_all add: triple_quote_def)
    ultimately show ?thesis
      by (intro exI [of _ ?body] conjI)
  qed
next
  case (snoc ps p)
  with assms(2) have "closed_line p" by simp
  from property_line_last [OF this] have l: "property_line p \<noteq> []" "last (property_line p) \<noteq> CHR ''\<newline>''"
    by simp_all
  let ?body = "py_str i @ ''(pydantic.BaseModel):\<newline>'' @ doc
          @ concat (map (\<lambda>p. indent4 @ property_line p @ ''\<newline>'') ps) @ indent4 @ property_line p"
  from snoc have "class_text i doc props = ''class '' @ ?body @ ''\<newline>''"
    by (simp add: class_text_def)
  moreover from l have "?body \<noteq> []" "last ?body \<noteq> CHR ''\<newline>''"
    by simp_all
  ultimately show ?thesis
    by (intro exI [of _ ?body] conjI)
qed

lemma update_values: "snd ` set (AList.update k v al) \<subseteq> insert v (snd ` set al)"
  by (induction al) auto

lemma registry_texts_step:
  assumes "\<forall>d \<in> snd ` set reg. \<exists>body. d = ''class '' @ body @ ''\<newline>'' \<and> body \<noteq> [] \<and> last body \<noteq> CHR ''\<newline>''"
    and "format_docstring text indent4 = Inr doc" and "list_all closed_line props"
  shows "\<forall>d \<in> snd ` set (AList.update k (class_text i doc props) reg).
           \<exists>body. d = ''class '' @ body @ ''\<newline>'' \<and> body \<noteq> [] \<and> last body \<noteq> CHR ''\<newline>''"
proof
  fix d assume "d \<in> snd ` set (AList.update k (class_text i doc props) reg)"
  with update_values [of k "class_text i doc props" reg]
  have "d \<in> insert (class_text i doc props) (snd ` set reg)"
    by (rule subsetD)
  then consider "d = class_text i doc props" | "d \<in> snd ` set reg"
    by (elim insertE)
  then show "\<exists>body. d = ''class '' @ body @ ''\<newline>'' \<and> body \<noteq> [] \<and> last body \<noteq> CHR ''\<newline>''"
  proof cases
    case 1
    with class_text_form [OF assms(2,3), of i] show ?thesis
      by (simp only:)
  next
    case 2
    with assms(1) show ?thesis
      by (rule bspec)
  qed
qed

subsection \<open>The writer\<close>

text \<open>
  Claim C7 says that consecutive definitions are separated by exactly one blank line.
  Every definition ends with a newline and the separator is two newlines: there are
  two blank lines between two definitions.
\<close>

theorem write_models_two_blank_lines:
  "SchemaParser (JObj [(''A'', JObj []), (''B'', JObj [])])
     = Inr [(JStr ''A'', ''class A(pydantic.BaseModel):\<newline>    pass\<newline>''),
            (JStr ''B'', ''class B(pydantic.BaseModel):\<newline>    pass\<newline>'')]
   \<and> write_models (JObj [(''A'', JObj []), (''B'', JObj [])])
     = Inr (''class A(pydantic.BaseModel):\<newline>    pass\<newline>'' @ ''\<newline>\<newline>''
            @ ''class B(pydantic.BaseModel):\<newline>    pass\<newline>'')
   \<and> write_models (JObj [(''A'', JObj []), (''B'', JObj [])])
     \<noteq> Inr (''class A(pydantic.BaseModel):\<newline>    pass\<newline>'' @ ''\<newline>''
            @ ''class B(pydantic.BaseModel):\<newline>    pass\<newline>'')"
proof -
  have a: "schema_as_string reg (JObj []) (Some c) =
      Inr (AList.update (model_id JNull (Some c) []) (class_text (model_id JNull (Some c) []) [] []) reg)"
    if "c \<noteq> []" for reg c
    using that by (simp add: format_docstring_def py_get_def model_id_def Let_def)
  have t: "class_text (JStr c) [] [] = ''class '' @ c @ ''(pydantic.BaseModel):\<newline>    pass\<newline>''" for c
    by (simp add: class_text_def indent4_eq)
  have p: "SchemaParser (JObj [(''A'', JObj []), (''B'', JObj [])])
     = Inr [(JStr ''A'', ''class A(pydantic.BaseModel):\<newline>    pass\<newline>''),
            (JStr ''B'', ''class B(pydantic.BaseModel):\<newline>    pass\<newline>'')]"
    by (simp add: SchemaParser_def a t model_id_def del: schema_as_string.simps)
  have w: "write_models (JObj [(''A'', JObj []), (''B'', JObj [])])
     = Inr (''class A(pydantic.BaseModel):\<newline>    pass\<newline>'' @ ''\<newline>\<newline>''
            @ ''class B(pydantic.BaseModel):\<newline>    pass\<newline>'')"
    by (simp add: write_models_def p)
  from p w show ?thesis
    by simp
qed

text \<open>
  Claim C7, amended. What \<^verbatim>\<open>write_models\<close> writes is the texts of the registry, in the
  order of the registry, joined by two newlines. Every text starts with \<^verbatim>\<open>class\<close> and
  ends with exactly one newline, so that two consecutive definitions are separated by
  exactly two blank lines.
\<close>

theorem writer_joins_definitions:
  assumes "write_models schemas = Inr out"
  shows "\<exists>model_defs. SchemaParser schemas = Inr model_defs \<and>
           out = py_join ''\<newline>\<newline>'' (map snd model_defs) \<and>
           (\<forall>d \<in> set (map snd model_defs).
              \<exists>body. d = ''class '' @ body @ ''\<newline>'' \<and> body \<noteq> [] \<and> last body \<noteq> CHR ''\<newline>'')"
proof -
  from assms obtain model_defs where m: "SchemaParser schemas = Inr model_defs"
    and out: "out = py_join ''\<newline>\<newline>'' (map snd model_defs)"
    by (auto simp: write_models_def split: sum.splits)
  from m obtain kvs where il: "init_loop [] kvs = Inr model_defs"
    by (auto simp: SchemaParser_def split: json.splits)
  let ?I = "\<lambda>reg :: registry. \<forall>d \<in> snd ` set reg.
        \<exists>body. d = ''class '' @ body @ ''\<newline>'' \<and> body \<noteq> [] \<and> last body \<noteq> CHR ''\<newline>''"
  have step: "?I (AList.update k (class_text i doc props) reg)"
    if "?I reg" "format_docstring descr indent4 = Inr doc" "list_all closed_line props"
    for reg k i descr doc props
    using that by (rule registry_texts_step)
  have e: "?I []"
    by simp
  have "?I model_defs"
    by (rule init_loop_invariant [where I = ?I, OF step il e])
  then have "\<forall>d \<in> set (map snd model_defs).
        \<exists>body. d = ''class '' @ body @ ''\<newline>'' \<and> body \<noteq> [] \<and> last body \<noteq> CHR ''\<newline>''"
    by (simp only: set_map)
  with m out show ?thesis
    by (intro exI [of _ model_defs] conjI)
qed

text \<open>The schema of the repository's test of a nested object: the nested record comes first.\<close>

theorem writer_joins_definitions_witness:
  \<open>write_models (JObj [(''ModelName'', JObj [(''properties'', JObj [(''foo'',
       JObj [(''properties'', JObj [(''bar'', JObj [(''type'', JStr ''string'')])]), (''type'', JStr ''object'')])]),
       (''type'', JStr ''object'')])])
     = Inr ''class _foo(pydantic.BaseModel):\<newline>    bar: str\<newline>\<newline>\<newline>class ModelName(pydantic.BaseModel):\<newline>    foo: "_foo"\<newline>''
   \<and> (\<exists>model_defs. SchemaParser (JObj [(''ModelName'', JObj [(''properties'', JObj [(''foo'',
         JObj [(''properties'', JObj [(''bar'', JObj [(''type'', JStr ''string'')])]), (''type'', JStr ''object'')])]),
         (''type'', JStr ''object'')])]) = Inr model_defs \<and>
       ''class _foo(pydantic.BaseModel):\<newline>    bar: str\<newline>\<newline>\<newline>class ModelName(pydantic.BaseModel):\<newline>    foo: "_foo"\<newline>''
         = py_join ''\<newline>\<newline>'' (map snd model_defs) \<and>
       (\<forall>d \<in> set (map snd model_defs).
          \<exists>body. d = ''class '' @ body @ ''\<newline>'' \<and> body \<noteq> [] \<and> last body \<noteq> CHR ''\<newline>''))\<close>
proof -
  let ?inner = "JObj [(''properties'', JObj [(''bar'', JObj [(''type'', JStr ''string'')])]), (''type'', JStr ''object'')]"
  let ?doc = "JObj [(''ModelName'', JObj [(''properties'', JObj [(''foo'', ?inner)]), (''type'', JStr ''object'')])]"
  have v: "valid_property_name ''foo'' = ''foo''" "valid_property_name ''bar'' = ''bar''"
    by (simp_all add: valid_property_name_def python_keywords_def kwlist_def builtins_dir_def)
  have i: \<open>parse_property [] ?inner ''foo''
      = Inr ((quoted ''_foo'', None), [(JStr ''_foo'', ''class _foo(pydantic.BaseModel):\<newline>    bar: str\<newline>'')])\<close>
    by (simp add: v lookup_type_def simple_types_def format_docstring_def py_get_def model_id_def
        class_text_def property_line_def default_repr_def indent4_eq)
  have p: \<open>SchemaParser ?doc
      = Inr [(JStr ''_foo'', ''class _foo(pydantic.BaseModel):\<newline>    bar: str\<newline>''),
             (JStr ''ModelName'', ''class ModelName(pydantic.BaseModel):\<newline>    foo: "_foo"\<newline>'')]\<close>
    by (simp add: v i SchemaParser_def format_docstring_def py_get_def model_id_def
        class_text_def property_line_def indent4_eq quoted_def del: parse_property.simps)
  have w: \<open>write_models ?doc
     = Inr ''class _foo(pydantic.BaseModel):\<newline>    bar: str\<newline>\<newline>\<newline>class ModelName(pydantic.BaseModel):\<newline>    foo: "_foo"\<newline>''\<close>
    by (simp add: write_models_def p)
  from writer_joins_definitions [OF w] w show ?thesis
    by (intro conjI)
qed

subsection \<open>Records of the same name\<close>

text \<open>
  An assignment to the registry never fails and never looks at what the registry holds,
  so a resolution run on a registry is the same resolution run on an empty one, with
  its assignments replayed on the registry in the same order. Replaying a list of
  assignments with distinct names: assignments commute with the replay, the names stay
  distinct, and a lookup finds the replayed text or else the old one.
\<close>

lemma update_twice: "AList.update k v (AList.update k v0 al) = AList.update k v al"
  by (induction al) auto

lemma update_commute_present:
  "k \<in> fst ` set al \<Longrightarrow> k \<noteq> k' \<Longrightarrow>
     AList.update k v (AList.update k' v' al) = AList.update k' v' (AList.update k v al)"
  by (induction al) auto

lemma update_replay_present:
  "k \<in> fst ` set reg \<Longrightarrow> k \<notin> fst ` set t \<Longrightarrow>
     AList.update k v (fold (\<lambda>(k, v). AList.update k v) t reg)
       = fold (\<lambda>(k, v). AList.update k v) t (AList.update k v reg)"
proof (induction t arbitrary: reg)
  case Nil
  then show ?case by simp
next
  case (Cons p t)
  obtain k' v' where p: "p = (k', v')" by (cases p)
  with Cons.prems have ne: "k \<noteq> k'" and nt: "k \<notin> fst ` set t"
    by auto
  from Cons.prems(1) have "k \<in> fst ` set (AList.update k' v' reg)"
    by (simp add: dom_update)
  from Cons.IH [OF this nt]
  have "AList.update k v (fold (\<lambda>(k, v). AList.update k v) t (AList.update k' v' reg))
      = fold (\<lambda>(k, v). AList.update k v) t (AList.update k v (AList.update k' v' reg))" .
  also have "AList.update k v (AList.update k' v' reg) = AList.update k' v' (AList.update k v reg)"
    using Cons.prems(1) ne by (rule update_commute_present)
  finally show ?case using p by simp
qed

lemma replay_update:
  "distinct (map fst t) \<Longrightarrow>
     fold (\<lambda>(k, v). AList.update k v) (AList.update k v t) reg
       = AList.update k v (fold (\<lambda>(k, v). AList.update k v) t reg)"
proof (induction t arbitrary: reg)
  case Nil
  then show ?case by simp
next
  case (Cons p t)
  obtain k' v' where p: "p = (k', v')" by (cases p)
  show ?case
  proof (cases "k' = k")
    case True
    with Cons.prems p have nt: "k \<notin> fst ` set t" by auto
    have "k \<in> fst ` set (AList.update k v' reg)"
      by (simp add: dom_update)
    from update_replay_present [OF this nt, of v]
    show ?thesis using p True by (simp add: update_twice)
  next
    case False
    from Cons.prems have "distinct (map fst t)" by simp
    from Cons.IH [OF this] p False show ?thesis by simp
  qed
qed

lemma replay_distinct:
  "distinct (map fst reg) \<Longrightarrow> distinct (map fst (fold (\<lambda>(k, v). AList.update k v) t reg))"
  by (induction t arbitrary: reg) (auto simp: distinct_update)

lemma replay_replay:
  "distinct (map fst t1) \<Longrightarrow>
     fold (\<lambda>(k, v). AList.update k v) t2 (fold (\<lambda>(k, v). AList.update k v) t1 reg)
       = fold (\<lambda>(k, v). AList.update k v) (fold (\<lambda>(k, v). AList.update k v) t2 t1) reg"
proof (induction t2 rule: rev_induct)
  case Nil
  then show ?case by simp
next
  case (snoc p t2)
  obtain k v where p: "p = (k, v)" by (cases p)
  from snoc.prems have "distinct (map fst (fold (\<lambda>(k, v). AList.update k v) t2 t1))"
    by (rule replay_distinct)
  from replay_update [OF this, of k v reg] snoc.IH [OF snoc.prems] p
  show ?case by simp
qed

lemma replay_map_of:
  "distinct (map fst t) \<Longrightarrow>
     map_of (fold (\<lambda>(k, v). AList.update k v) t reg) k
       = (case map_of t k of None \<Rightarrow> map_of reg k | Some v \<Rightarrow> Some v)"
proof (induction t arbitrary: reg)
  case Nil
  then show ?case by simp
next
  case (Cons p t)
  obtain k' v' where p: "p = (k', v')" by (cases p)
  from Cons.prems have d: "distinct (map fst t)" by simp
  show ?case
  proof (cases "k = k'")
    case True
    with Cons.prems p have "map_of t k = None"
      by (auto simp: map_of_eq_None_iff)
    with Cons.IH [OF d, of "AList.update k' v' reg"] p True show ?thesis
      by (simp add: update_conv')
  next
    case False
    with Cons.IH [OF d, of "AList.update k' v' reg"] p show ?thesis
      by (simp add: update_conv' split: option.splits)
  qed
qed

lemma registry_distinct:
  shows "parse_property reg schema name = Inr (r, reg') \<Longrightarrow> distinct (map fst reg) \<Longrightarrow> distinct (map fst reg')"
    and "schema_as_string reg schema cn = Inr reg' \<Longrightarrow> distinct (map fst reg) \<Longrightarrow> distinct (map fst reg')"
    and "parse_properties reg ps acc = Inr (props, reg') \<Longrightarrow> distinct (map fst reg) \<Longrightarrow> distinct (map fst reg')"
proof -
  have step: "distinct (map fst (AList.update k (class_text i doc props) reg))"
    if "distinct (map fst reg)" "format_docstring descr indent4 = Inr doc" "list_all closed_line props"
    for reg :: registry and k i descr doc props
    using that(1) by (rule distinct_update)
  show "parse_property reg schema name = Inr (r, reg') \<Longrightarrow> distinct (map fst reg) \<Longrightarrow> distinct (map fst reg')"
    by (rule registry_invariant(1) [where I = "\<lambda>reg. distinct (map fst reg)", OF step])
  show "schema_as_string reg schema cn = Inr reg' \<Longrightarrow> distinct (map fst reg) \<Longrightarrow> distinct (map fst reg')"
    by (rule registry_invariant(2) [where I = "\<lambda>reg. distinct (map fst reg)", OF step])
  show "parse_properties reg ps acc = Inr (props, reg') \<Longrightarrow> distinct (map fst reg) \<Longrightarrow> distinct (map fst reg')"
    by (rule registry_invariant(3) [where I = "\<lambda>reg. distinct (map fst reg)", OF step])
qed

text \<open>
  The three functions, and the loop over the schemas, on any registry: the same
  exception as on the empty registry, or the registry of the empty run replayed.
\<close>

lemma registry_replay:
  fixes reg :: registry
  shows "(parse_property [] schema name = Inl e \<longrightarrow> parse_property reg0 schema name = Inl e) \<and>
         (parse_property [] schema name = Inr (r, t) \<longrightarrow>
            parse_property reg0 schema name = Inr (r, fold (\<lambda>(k, v). AList.update k v) t reg0))"
    and "(schema_as_string [] schema cn = Inl e \<longrightarrow> schema_as_string reg0 schema cn = Inl e) \<and>
         (schema_as_string [] schema cn = Inr t \<longrightarrow>
            schema_as_string reg0 schema cn = Inr (fold (\<lambda>(k, v). AList.update k v) t reg0))"
    and "(parse_properties [] ps acc = Inl e \<longrightarrow> parse_properties reg0 ps acc = Inl e) \<and>
         (parse_properties [] ps acc = Inr (props, t) \<longrightarrow>
            parse_properties reg0 ps acc = Inr (props, fold (\<lambda>(k, v). AList.update k v) t reg0))"
proof (induction reg schema name and reg schema cn and reg ps acc
    arbitrary: e r t reg0 and e t reg0 and e props t reg0
    rule: parse_property_schema_as_string_parse_properties.induct)
  case (1 reg kvs name)
  show ?case
  proof (cases "lookup_type kvs")
    case (Inl e0)
    then show ?thesis by simp
  next
    case lt: (Inr ty)
    show ?thesis
    proof (cases "simple_type_of ty")
      case (Inl e0)
      with lt show ?thesis by simp
    next
      case st: (Inr st)
      show ?thesis
      proof (cases st)
        case (Some py)
        with lt st show ?thesis by simp
      next
        case None
        show ?thesis
        proof (cases "ty = JStr ''object''")
          case True
          with lt have o: "lookup_type kvs = Inr (JStr ''object'')" by simp
          note pp = parse_property_object [OF o]
          show ?thesis
          proof (cases "schema_as_string [] (JObj kvs) (Some (''_'' @ name))")
            case (Inl e0)
            with "1.IH"(1) [OF lt st None True, where e = e0 and ?reg0.0 = reg0]
            have "schema_as_string reg0 (JObj kvs) (Some (''_'' @ name)) = Inl e0"
              by blast
            with Inl show ?thesis
              by (simp add: pp del: parse_property.simps schema_as_string.simps)
          next
            case (Inr t0)
            with "1.IH"(1) [OF lt st None True, where t = t0 and ?reg0.0 = reg0]
            have "schema_as_string reg0 (JObj kvs) (Some (''_'' @ name))
                = Inr (fold (\<lambda>(k, v). AList.update k v) t0 reg0)"
              by blast
            with Inr show ?thesis
              by (auto simp add: pp simp del: parse_property.simps schema_as_string.simps)
          qed
        next
          case False
          show ?thesis
          proof (cases "ty = JStr ''array''")
            case True
            with lt have a: "lookup_type kvs = Inr (JStr ''array'')" by simp
            note pp = parse_property_array [OF a]
            show ?thesis
            proof (cases "map_of kvs ''items''")
              case N: None
              then show ?thesis
                by (simp add: pp del: parse_property.simps)
            next
              case (Some items)
              show ?thesis
              proof (cases "parse_property [] items name")
                case (Inl e0)
                with "1.IH"(2) [OF lt st None False True Some, where e = e0 and ?reg0.0 = reg0]
                have "parse_property reg0 items name = Inl e0"
                  by blast
                with Inl Some show ?thesis
                  by (simp add: pp del: parse_property.simps)
              next
                case (Inr b)
                obtain ity d t0 where b: "b = ((ity, d), t0)" by (cases b) auto
                with Inr "1.IH"(2) [OF lt st None False True Some, where r = "(ity, d)" and t = t0 and ?reg0.0 = reg0]
                have "parse_property reg0 items name
                    = Inr ((ity, d), fold (\<lambda>(k, v). AList.update k v) t0 reg0)"
                  by blast
                with Inr b Some show ?thesis
                  by (auto simp add: pp simp del: parse_property.simps)
              qed
            qed
          next
            case F2: False
            with lt st None False show ?thesis by simp
          qed
        qed
      qed
    qed
  qed
next
  case (3 reg kvs class_name)
  let ?descr = "case map_of kvs ''description'' of None \<Rightarrow> JStr [] | Some d \<Rightarrow> d"
  note su = schema_as_string_unfold
  show ?case
  proof (cases "format_docstring ?descr indent4")
    case (Inl e0)
    then show ?thesis
      by (simp add: su del: schema_as_string.simps)
  next
    case doc: (Inr doc)
    show ?thesis
    proof (cases "properties_of [] kvs")
      case (Inl e0)
      have "properties_of reg0 kvs = Inl e0"
      proof (cases "map_of kvs ''properties''")
        case None
        with Inl show ?thesis by (simp add: properties_of_def)
      next
        case (Some v)
        show ?thesis
        proof (cases v)
          case (JObj ps)
          with Inl Some have "parse_properties [] ps [] = Inl e0"
            by (simp add: properties_of_def)
          with "3.IH" [OF doc Some JObj, where e = e0 and ?reg0.0 = reg0]
          have "parse_properties reg0 ps [] = Inl e0"
            by blast
          with Some JObj show ?thesis by (simp add: properties_of_def)
        qed (use Inl Some in \<open>simp_all add: properties_of_def\<close>)
      qed
      with Inl doc show ?thesis
        by (simp add: su del: schema_as_string.simps)
    next
      case (Inr b)
      obtain props tm where b: "b = (props, tm)" by (cases b)
      have "properties_of reg0 kvs = Inr (props, fold (\<lambda>(k, v). AList.update k v) tm reg0)
          \<and> distinct (map fst tm)"
      proof (cases "map_of kvs ''properties''")
        case None
        with Inr b show ?thesis by (auto simp: properties_of_def)
      next
        case (Some v)
        show ?thesis
        proof (cases v)
          case (JObj ps)
          with Inr b Some have p0: "parse_properties [] ps [] = Inr (props, tm)"
            by (simp add: properties_of_def)
          with "3.IH" [OF doc Some JObj, where props = props and t = tm and ?reg0.0 = reg0]
          have "parse_properties reg0 ps [] = Inr (props, fold (\<lambda>(k, v). AList.update k v) tm reg0)"
            by blast
          moreover from registry_distinct(3) [OF p0] have "distinct (map fst tm)"
            by simp
          ultimately show ?thesis using Some JObj by (simp add: properties_of_def)
        qed (use Inr Some in \<open>simp_all add: properties_of_def\<close>)
      qed
      then have po: "properties_of reg0 kvs = Inr (props, fold (\<lambda>(k, v). AList.update k v) tm reg0)"
        and dt: "distinct (map fst tm)"
        by simp_all
      from Inr b doc po replay_update [OF dt] show ?thesis
        by (auto simp add: su simp del: schema_as_string.simps split: sum.splits)
    qed
  qed
next
  case (6 reg pname pschema rest properties)
  show ?case
  proof (cases "parse_property [] pschema (valid_property_name pname)")
    case (Inl e0)
    with "6.IH"(1) [where e = e0 and ?reg0.0 = reg0]
    have "parse_property reg0 pschema (valid_property_name pname) = Inl e0"
      by blast
    with Inl show ?thesis by simp
  next
    case (Inr b)
    obtain ty d t1 where b: "b = ((ty, d), t1)" by (cases b) auto
    have at: "parse_property x pschema (valid_property_name pname)
        = Inr ((ty, d), fold (\<lambda>(k, v). AList.update k v) t1 x)" for x
      using Inr b "6.IH"(1) [where r = "(ty, d)" and t = t1 and ?reg0.0 = x] by blast
    from registry_distinct(1) [OF Inr [unfolded b]] have dt: "distinct (map fst t1)"
      by simp
    let ?acc = "properties @ [(valid_property_name pname, ty, d)]"
    note ih = "6.IH"(2) [OF at [of reg] refl refl]
    have l: "parse_properties [] ((pname, pschema) # rest) properties = parse_properties t1 rest ?acc"
      using Inr b by simp
    have r: "parse_properties reg0 ((pname, pschema) # rest) properties
        = parse_properties (fold (\<lambda>(k, v). AList.update k v) t1 reg0) rest ?acc"
      using at [of reg0] by simp
    show ?thesis
    proof (cases "parse_properties [] rest ?acc")
      case (Inl e0)
      with ih [where e = e0 and ?reg0.0 = t1] ih [where e = e0 and ?reg0.0 = "fold (\<lambda>(k, v). AList.update k v) t1 reg0"]
      have "parse_properties t1 rest ?acc = Inl e0"
        "parse_properties (fold (\<lambda>(k, v). AList.update k v) t1 reg0) rest ?acc = Inl e0"
        by blast+
      then show ?thesis
        unfolding l r by simp
    next
      case r2: (Inr r2)
      obtain props2 t2 where "r2 = (props2, t2)" by (cases r2)
      with r2 ih [where props = props2 and t = t2 and ?reg0.0 = t1]
        ih [where props = props2 and t = t2 and ?reg0.0 = "fold (\<lambda>(k, v). AList.update k v) t1 reg0"]
      have "parse_properties t1 rest ?acc = Inr (props2, fold (\<lambda>(k, v). AList.update k v) t2 t1)"
        "parse_properties (fold (\<lambda>(k, v). AList.update k v) t1 reg0) rest ?acc
          = Inr (props2, fold (\<lambda>(k, v). AList.update k v) t2 (fold (\<lambda>(k, v). AList.update k v) t1 reg0))"
        by blast+
      then show ?thesis
        unfolding l r by (auto simp: replay_replay [OF dt])
    qed
  qed
qed simp_all

lemma init_loop_distinct:
  "init_loop reg schemas = Inr reg' \<Longrightarrow> distinct (map fst reg) \<Longrightarrow> distinct (map fst reg')"
proof -
  have step: "distinct (map fst (AList.update k (class_text i doc props) reg))"
    if "distinct (map fst reg)" "format_docstring descr indent4 = Inr doc" "list_all closed_line props"
    for reg :: registry and k i descr doc props
    using that(1) by (rule distinct_update)
  show "init_loop reg schemas = Inr reg' \<Longrightarrow> distinct (map fst reg) \<Longrightarrow> distinct (map fst reg')"
    by (rule init_loop_invariant [where I = "\<lambda>reg. distinct (map fst reg)", OF step])
qed

lemma init_loop_replay:
  "(init_loop [] schemas = Inl e \<longrightarrow> init_loop reg0 schemas = Inl e) \<and>
   (init_loop [] schemas = Inr t \<longrightarrow>
      init_loop reg0 schemas = Inr (fold (\<lambda>(k, v). AList.update k v) t reg0))"
proof (induction schemas arbitrary: e t reg0)
  case Nil
  show ?case by simp
next
  case (Cons p schemas)
  obtain n schema where p: "p = (n, schema)" by (cases p)
  show ?case
  proof (cases "schema_as_string [] schema (Some n)")
    case (Inl e0)
    with registry_replay(2) [where schema = schema and cn = "Some n" and e = e0 and ?reg0.0 = reg0]
    have "schema_as_string reg0 schema (Some n) = Inl e0"
      by blast
    with Inl p show ?thesis
      by (simp del: schema_as_string.simps)
  next
    case (Inr t1)
    have at: "schema_as_string x schema (Some n) = Inr (fold (\<lambda>(k, v). AList.update k v) t1 x)" for x
      using Inr registry_replay(2) [where schema = schema and cn = "Some n" and t = t1 and ?reg0.0 = x]
      by blast
    from registry_distinct(2) [OF Inr] have dt: "distinct (map fst t1)"
      by simp
    have l: "init_loop [] (p # schemas) = init_loop t1 schemas"
      using Inr p by (simp del: schema_as_string.simps)
    have r: "init_loop reg0 (p # schemas)
        = init_loop (fold (\<lambda>(k, v). AList.update k v) t1 reg0) schemas"
      using at [of reg0] p by (simp del: schema_as_string.simps)
    show ?thesis
    proof (cases "init_loop [] schemas")
      case (Inl e0)
      with Cons.IH [where e = e0 and ?reg0.0 = t1]
        Cons.IH [where e = e0 and ?reg0.0 = "fold (\<lambda>(k, v). AList.update k v) t1 reg0"]
      have "init_loop t1 schemas = Inl e0"
        "init_loop (fold (\<lambda>(k, v). AList.update k v) t1 reg0) schemas = Inl e0"
        by blast+
      then show ?thesis
        unfolding l r by simp
    next
      case (Inr t2)
      with Cons.IH [where t = t2 and ?reg0.0 = t1]
        Cons.IH [where t = t2 and ?reg0.0 = "fold (\<lambda>(k, v). AList.update k v) t1 reg0"]
      have "init_loop t1 schemas = Inr (fold (\<lambda>(k, v). AList.update k v) t2 t1)"
        "init_loop (fold (\<lambda>(k, v). AList.update k v) t1 reg0) schemas
          = Inr (fold (\<lambda>(k, v). AList.update k v) t2 (fold (\<lambda>(k, v). AList.update k v) t1 reg0))"
        by blast+
      then show ?thesis
        unfolding l r by (auto simp: replay_replay [OF dt])
    qed
  qed
qed

text \<open>
  Claim C8. Two records of the same name raise nothing, and the registry then has one
  entry under the name, with the text assigned last; the entries of other names are
  untouched. For a build: if the schemas of a first part and those of a second part
  each build from an empty registry, the two parts in a row build, and the registry is
  that of the first part with the records of the second replayed on it; the names are
  distinct, a name of the second part has the text of the second part and every other
  name the text of the first. For one schema on any registry: the same, and the schema
  raises on a registry exactly the exception it raises on the empty one. For one
  record: its assignment is the last of the call and stores the text of its class under
  its name; the other names keep their text, a name already there keeps the list of
  names as it was, and distinct names stay distinct.
\<close>

theorem silent_overwrite:
  "(init_loop [] schemas1 = Inr reg1 \<and> init_loop [] schemas2 = Inr defs2 \<longrightarrow>
      init_loop [] (schemas1 @ schemas2) = Inr (fold (\<lambda>(k, text). AList.update k text) defs2 reg1) \<and>
      SchemaParser (JObj (schemas1 @ schemas2))
        = Inr (fold (\<lambda>(k, text). AList.update k text) defs2 reg1) \<and>
      distinct (map fst (fold (\<lambda>(k, text). AList.update k text) defs2 reg1)) \<and>
      (\<forall>k. map_of (fold (\<lambda>(k, text). AList.update k text) defs2 reg1) k
            = (case map_of defs2 k of None \<Rightarrow> map_of reg1 k | Some text \<Rightarrow> Some text)))
   \<and> (schema_as_string [] schema class_name = Inr defs \<longrightarrow>
      schema_as_string reg schema class_name
        = Inr (fold (\<lambda>(k, text). AList.update k text) defs reg) \<and>
      (\<forall>k. map_of (fold (\<lambda>(k, text). AList.update k text) defs reg) k
            = (case map_of defs k of None \<Rightarrow> map_of reg k | Some text \<Rightarrow> Some text)) \<and>
      (distinct (map fst reg) \<longrightarrow>
         distinct (map fst (fold (\<lambda>(k, text). AList.update k text) defs reg))))
   \<and> ((schema_as_string reg schema class_name = Inl e)
        = (schema_as_string [] schema class_name = Inl e))
   \<and> (schema_as_string reg (JObj kvs) class_name = Inr reg' \<longrightarrow>
      (\<exists>k docstring properties reg_mid.
         format_docstring (case map_of kvs ''description'' of None \<Rightarrow> JStr [] | Some d \<Rightarrow> d) indent4
           = Inr docstring \<and>
         properties_of reg kvs = Inr (properties, reg_mid) \<and>
         dict_key (model_id (py_get kvs ''id'') class_name properties) = Inr k \<and>
         reg' = AList.update k
           (class_text (model_id (py_get kvs ''id'') class_name properties) docstring properties) reg_mid \<and>
         map_of reg' k
           = Some (class_text (model_id (py_get kvs ''id'') class_name properties) docstring properties) \<and>
         (\<forall>k'. k' \<noteq> k \<longrightarrow> map_of reg' k' = map_of reg_mid k') \<and>
         (k \<in> fst ` set reg_mid \<longrightarrow> map fst reg' = map fst reg_mid) \<and>
         (distinct (map fst reg_mid) \<longrightarrow> distinct (map fst reg'))))"
proof -
  note rp = registry_replay(2) [where schema = schema and cn = class_name and ?reg0.0 = reg]
  have 1: "init_loop [] (schemas1 @ schemas2) = Inr (fold (\<lambda>(k, text). AList.update k text) defs2 reg1) \<and>
      SchemaParser (JObj (schemas1 @ schemas2))
        = Inr (fold (\<lambda>(k, text). AList.update k text) defs2 reg1) \<and>
      distinct (map fst (fold (\<lambda>(k, text). AList.update k text) defs2 reg1)) \<and>
      (\<forall>k. map_of (fold (\<lambda>(k, text). AList.update k text) defs2 reg1) k
            = (case map_of defs2 k of None \<Rightarrow> map_of reg1 k | Some text \<Rightarrow> Some text))"
    if a: "init_loop [] schemas1 = Inr reg1 \<and> init_loop [] schemas2 = Inr defs2"
  proof -
    from a init_loop_replay [where schemas = schemas2 and t = defs2 and ?reg0.0 = reg1]
    have "init_loop reg1 schemas2 = Inr (fold (\<lambda>(k, text). AList.update k text) defs2 reg1)"
      by blast
    with a have i: "init_loop [] (schemas1 @ schemas2)
        = Inr (fold (\<lambda>(k, text). AList.update k text) defs2 reg1)"
      by (simp add: init_loop_append)
    then have s: "SchemaParser (JObj (schemas1 @ schemas2))
        = Inr (fold (\<lambda>(k, text). AList.update k text) defs2 reg1)"
      by (simp add: SchemaParser_def)
    from a init_loop_distinct [of "[]" schemas1 reg1] have "distinct (map fst reg1)"
      by simp
    then have d: "distinct (map fst (fold (\<lambda>(k, text). AList.update k text) defs2 reg1))"
      by (rule replay_distinct)
    from a init_loop_distinct [of "[]" schemas2 defs2] have "distinct (map fst defs2)"
      by simp
    then have m: "\<forall>k. map_of (fold (\<lambda>(k, text). AList.update k text) defs2 reg1) k
            = (case map_of defs2 k of None \<Rightarrow> map_of reg1 k | Some text \<Rightarrow> Some text)"
      by (simp add: replay_map_of)
    from i s d m show ?thesis
      by (intro conjI)
  qed
  have 2: "schema_as_string reg schema class_name
        = Inr (fold (\<lambda>(k, text). AList.update k text) defs reg) \<and>
      (\<forall>k. map_of (fold (\<lambda>(k, text). AList.update k text) defs reg) k
            = (case map_of defs k of None \<Rightarrow> map_of reg k | Some text \<Rightarrow> Some text)) \<and>
      (distinct (map fst reg) \<longrightarrow>
         distinct (map fst (fold (\<lambda>(k, text). AList.update k text) defs reg)))"
    if a: "schema_as_string [] schema class_name = Inr defs"
  proof -
    from a rp [where t = defs]
    have x: "schema_as_string reg schema class_name
        = Inr (fold (\<lambda>(k, text). AList.update k text) defs reg)"
      by blast
    from registry_distinct(2) [OF a] have "distinct (map fst defs)"
      by simp
    then have y: "\<forall>k. map_of (fold (\<lambda>(k, text). AList.update k text) defs reg) k
            = (case map_of defs k of None \<Rightarrow> map_of reg k | Some text \<Rightarrow> Some text)"
      by (simp add: replay_map_of)
    have z: "distinct (map fst reg) \<longrightarrow>
         distinct (map fst (fold (\<lambda>(k, text). AList.update k text) defs reg))"
      by (simp add: replay_distinct)
    from x y z show ?thesis
      by (intro conjI)
  qed
  have 3: "(schema_as_string reg schema class_name = Inl e)
        = (schema_as_string [] schema class_name = Inl e)"
  proof
    assume l: "schema_as_string reg schema class_name = Inl e"
    show "schema_as_string [] schema class_name = Inl e"
    proof (cases "schema_as_string [] schema class_name")
      case (Inl e0)
      with rp [where e = e0] have "schema_as_string reg schema class_name = Inl e0"
        by blast
      with l Inl show ?thesis by simp
    next
      case (Inr t0)
      with rp [where t = t0] l show ?thesis
        by simp
    qed
  next
    assume "schema_as_string [] schema class_name = Inl e"
    with rp [where e = e] show "schema_as_string reg schema class_name = Inl e"
      by blast
  qed
  have 4: "\<exists>k docstring properties reg_mid.
         format_docstring (case map_of kvs ''description'' of None \<Rightarrow> JStr [] | Some d \<Rightarrow> d) indent4
           = Inr docstring \<and>
         properties_of reg kvs = Inr (properties, reg_mid) \<and>
         dict_key (model_id (py_get kvs ''id'') class_name properties) = Inr k \<and>
         reg' = AList.update k
           (class_text (model_id (py_get kvs ''id'') class_name properties) docstring properties) reg_mid \<and>
         map_of reg' k
           = Some (class_text (model_id (py_get kvs ''id'') class_name properties) docstring properties) \<and>
         (\<forall>k'. k' \<noteq> k \<longrightarrow> map_of reg' k' = map_of reg_mid k') \<and>
         (k \<in> fst ` set reg_mid \<longrightarrow> map fst reg' = map fst reg_mid) \<and>
         (distinct (map fst reg_mid) \<longrightarrow> distinct (map fst reg'))"
    if s: "schema_as_string reg (JObj kvs) class_name = Inr reg'"
  proof -
    from schema_as_string_result [OF s] obtain docstring properties reg_mid k where
      f: "format_docstring (case map_of kvs ''description'' of None \<Rightarrow> JStr [] | Some d \<Rightarrow> d) indent4
           = Inr docstring"
      and p: "properties_of reg kvs = Inr (properties, reg_mid)"
      and k: "dict_key (model_id (py_get kvs ''id'') class_name properties) = Inr k"
      and r: "reg' = AList.update k
           (class_text (model_id (py_get kvs ''id'') class_name properties) docstring properties) reg_mid"
      by blast
    have a: "map_of reg' k
        = Some (class_text (model_id (py_get kvs ''id'') class_name properties) docstring properties)"
      unfolding r by (rule map_of_update_same)
    have b: "\<forall>k'. k' \<noteq> k \<longrightarrow> map_of reg' k' = map_of reg_mid k'"
      unfolding r by (simp add: map_of_update_other)
    have c: "k \<in> fst ` set reg_mid \<longrightarrow> map fst reg' = map fst reg_mid"
      unfolding r by (simp add: update_present_keys)
    have d: "distinct (map fst reg_mid) \<longrightarrow> distinct (map fst reg')"
      unfolding r by (simp add: distinct_update)
    from f p k r a b c d show ?thesis
      by (intro exI conjI)
  qed
  show ?thesis
    apply (intro conjI)
    subgoal using 1 by (intro impI) (elim conjE, simp)
    subgoal using 2 by (intro impI)
    subgoal by (rule 3)
    subgoal using 4 by (intro impI)
    done
qed

text \<open>
  The schema \<^verbatim>\<open>A\<close> with the \<^verbatim>\<open>id\<close> \<^verbatim>\<open>B\<close>, then \<^verbatim>\<open>C\<close>, then \<^verbatim>\<open>B\<close>: the registry has the
  text of the last \<^verbatim>\<open>B\<close>, in the place of the first. A schema with a nested object
  \<^verbatim>\<open>foo\<close> on a registry that has \<^verbatim>\<open>_foo\<close>; a schema that raises; an empty schema \<^verbatim>\<open>B\<close> on
  a registry that has \<^verbatim>\<open>B\<close>.
\<close>

theorem silent_overwrite_witness:
  \<open>init_loop [] [(''A'', JObj [(''id'', JStr ''B''),
                      (''properties'', JObj [(''x'', JObj [(''type'', JStr ''string'')])])]),
                 (''C'', JObj [])]
     = Inr [(JStr ''B'', ''class B(pydantic.BaseModel):\<newline>    x: str\<newline>''),
            (JStr ''C'', ''class C(pydantic.BaseModel):\<newline>    pass\<newline>'')]
   \<and> init_loop [] [(''B'', JObj [])]
     = Inr [(JStr ''B'', ''class B(pydantic.BaseModel):\<newline>    pass\<newline>'')]
   \<and> SchemaParser (JObj [(''A'', JObj [(''id'', JStr ''B''),
                      (''properties'', JObj [(''x'', JObj [(''type'', JStr ''string'')])])]),
                 (''C'', JObj []), (''B'', JObj [])])
     = Inr [(JStr ''B'', ''class B(pydantic.BaseModel):\<newline>    pass\<newline>''),
            (JStr ''C'', ''class C(pydantic.BaseModel):\<newline>    pass\<newline>'')]
   \<and> distinct (map fst [(JStr ''B'', ''class B(pydantic.BaseModel):\<newline>    pass\<newline>''),
            (JStr ''C'', ''class C(pydantic.BaseModel):\<newline>    pass\<newline>'')])
   \<and> schema_as_string []
       (JObj [(''properties'', JObj [(''foo'', JObj [(''type'', JStr ''object'')])])]) (Some ''ModelName'')
     = Inr [(JStr ''_foo'', ''class _foo(pydantic.BaseModel):\<newline>    pass\<newline>''),
            (JStr ''ModelName'', ''class ModelName(pydantic.BaseModel):\<newline>    foo: "_foo"\<newline>'')]
   \<and> schema_as_string [(JStr ''_foo'', ''old''), (JStr ''Other'', ''x'')]
       (JObj [(''properties'', JObj [(''foo'', JObj [(''type'', JStr ''object'')])])]) (Some ''ModelName'')
     = Inr [(JStr ''_foo'', ''class _foo(pydantic.BaseModel):\<newline>    pass\<newline>''),
            (JStr ''Other'', ''x''),
            (JStr ''ModelName'', ''class ModelName(pydantic.BaseModel):\<newline>    foo: "_foo"\<newline>'')]
   \<and> distinct (map fst [(JStr ''_foo'', ''class _foo(pydantic.BaseModel):\<newline>    pass\<newline>''),
            (JStr ''Other'', ''x''),
            (JStr ''ModelName'', ''class ModelName(pydantic.BaseModel):\<newline>    foo: "_foo"\<newline>'')])
   \<and> schema_as_string [(JStr ''_foo'', ''old''), (JStr ''Other'', ''x'')]
       (JObj [(''properties'', JObj [(''a'', JObj [])])]) (Some ''M'')
       = Inl (KeyError ''$ref'')
   \<and> schema_as_string [(JStr ''B'', ''old''), (JStr ''C'', ''c'')] (JObj []) (Some ''B'')
       = Inr [(JStr ''B'', ''class B(pydantic.BaseModel):\<newline>    pass\<newline>''), (JStr ''C'', ''c'')]
   \<and> map_of [(JStr ''B'', ''class B(pydantic.BaseModel):\<newline>    pass\<newline>''), (JStr ''C'', ''c'')]
        (JStr ''B'') = Some (class_text (JStr ''B'') [] [])
   \<and> map fst [(JStr ''B'', ''class B(pydantic.BaseModel):\<newline>    pass\<newline>''), (JStr ''C'', ''c'')]
       = map fst [(JStr ''B'', ''old''), (JStr ''C'', ''c'')]\<close>
proof -
  let ?A = "JObj [(''id'', JStr ''B''), (''properties'', JObj [(''x'', JObj [(''type'', JStr ''string'')])])]"
  let ?s1 = "[(''A'', ?A), (''C'', JObj [])]"
  let ?s2 = "[(''B'', JObj [])]"
  let ?tB = "''class B(pydantic.BaseModel):\<newline>    pass\<newline>''"
  let ?tBx = "''class B(pydantic.BaseModel):\<newline>    x: str\<newline>''"
  let ?tC = "''class C(pydantic.BaseModel):\<newline>    pass\<newline>''"
  let ?reg1 = "[(JStr ''B'', ?tBx), (JStr ''C'', ?tC)]"
  let ?defs2 = "[(JStr ''B'', ?tB)]"
  let ?final = "[(JStr ''B'', ?tB), (JStr ''C'', ?tC)]"
  let ?schema = "JObj [(''properties'', JObj [(''foo'', JObj [(''type'', JStr ''object'')])])]"
  let ?bad = "JObj [(''properties'', JObj [(''a'', JObj [])])]"
  let ?reg = "[(JStr ''_foo'', ''old''), (JStr ''Other'', ''x'')]"
  let ?t1 = "''class _foo(pydantic.BaseModel):\<newline>    pass\<newline>''"
  let ?t2 = \<open>''class ModelName(pydantic.BaseModel):\<newline>    foo: "_foo"\<newline>''\<close>
  let ?defs = "[(JStr ''_foo'', ?t1), (JStr ''ModelName'', ?t2)]"
  let ?reg' = "[(JStr ''_foo'', ?t1), (JStr ''Other'', ''x''), (JStr ''ModelName'', ?t2)]"
  let ?old = "[(JStr ''B'', ''old''), (JStr ''C'', ''c'')]"
  let ?new = "[(JStr ''B'', ?tB), (JStr ''C'', ''c'')]"
  note S = silent_overwrite
  note S1 = S [THEN conjunct1, rule_format]
  note S4 = S [THEN conjunct2, THEN conjunct2, THEN conjunct2, rule_format]
  have v: "valid_property_name ''foo'' = ''foo''" "valid_property_name ''a'' = ''a''"
    "valid_property_name ''x'' = ''x''"
    by (simp_all add: valid_property_name_def python_keywords_def kwlist_def builtins_dir_def)
  have i1: "init_loop [] ?s1 = Inr ?reg1"
    by (simp add: v lookup_type_def simple_types_def default_repr_def format_docstring_def py_get_def
        model_id_def class_text_def property_line_def indent4_eq)
  have i2: "init_loop [] ?s2 = Inr ?defs2"
    by (simp add: format_docstring_def py_get_def model_id_def class_text_def indent4_eq)
  have f1: "fold (\<lambda>(k, text). AList.update k text) ?defs2 ?reg1 = ?final"
    by simp
  from S1 [OF conjI [OF i1 i2]]
  have r1: "SchemaParser (JObj (?s1 @ ?s2)) = Inr ?final" and r2: "distinct (map fst ?final)"
    unfolding f1 by blast+
  from r1 have r1': "SchemaParser (JObj [(''A'', ?A), (''C'', JObj []), (''B'', JObj [])]) = Inr ?final"
    by (simp only: append_Cons append_Nil)
  have i: "parse_property [] (JObj [(''type'', JStr ''object'')]) ''foo''
      = Inr ((quoted ''_foo'', None), [(JStr ''_foo'', ?t1)])"
    by (simp add: lookup_type_def format_docstring_def py_get_def model_id_def class_text_def indent4_eq)
  have a: "schema_as_string [] ?schema (Some ''ModelName'') = Inr ?defs"
    by (simp add: v i format_docstring_def py_get_def model_id_def class_text_def property_line_def
        indent4_eq quoted_def del: parse_property.simps)
  have b: "schema_as_string [] ?bad (Some ''M'') = Inl (KeyError ''$ref'')"
    by (simp add: v lookup_type_def format_docstring_def)
  have d: "distinct (map fst ?reg)"
    by simp
  have f2: "fold (\<lambda>(k, text). AList.update k text) ?defs ?reg = ?reg'"
    by simp
  from S [where reg = ?reg and schema = ?schema and class_name = "Some ''ModelName''" and defs = ?defs,
      THEN conjunct2, THEN conjunct1, rule_format, OF a]
  have r3: "schema_as_string ?reg ?schema (Some ''ModelName'') = Inr ?reg'"
    and r4': "distinct (map fst ?reg) \<longrightarrow> distinct (map fst ?reg')"
    unfolding f2 by blast+
  from r4' d have r4: "distinct (map fst ?reg')"
    by (rule mp)
  from S [where reg = ?reg and schema = ?bad and class_name = "Some ''M''" and e = "KeyError ''$ref''",
      THEN conjunct2, THEN conjunct2, THEN conjunct1] b
  have r5: "schema_as_string ?reg ?bad (Some ''M'') = Inl (KeyError ''$ref'')"
    by (rule iffD2)
  have c: "schema_as_string ?old (JObj []) (Some ''B'') = Inr ?new"
    by (simp add: format_docstring_def py_get_def model_id_def class_text_def indent4_eq)
  from S4 [OF c] obtain k docstring properties reg_mid where
    o: "format_docstring (case map_of [] ''description'' of None \<Rightarrow> JStr [] | Some d \<Rightarrow> d) indent4
          = Inr docstring"
      "properties_of ?old [] = Inr (properties, reg_mid)"
      "dict_key (model_id (py_get [] ''id'') (Some ''B'') properties) = Inr k"
      "map_of ?new k = Some (class_text (model_id (py_get [] ''id'') (Some ''B'') properties) docstring properties)"
      "k \<in> fst ` set reg_mid \<longrightarrow> map fst ?new = map fst reg_mid"
    by blast
  from o(1) have o1: "docstring = []"
    by (simp add: format_docstring_def)
  from o(2) have o2: "properties = []" "reg_mid = ?old"
    by (simp_all add: properties_of_def)
  from o(3) have o3: "k = JStr ''B''"
    unfolding o2 by (simp add: model_id_def py_get_def)
  have o4: "model_id (py_get [] ''id'') (Some ''B'') [] = JStr ''B''"
    by (simp add: model_id_def py_get_def)
  from o(4) have r6: "map_of ?new (JStr ''B'') = Some (class_text (JStr ''B'') [] [])"
    unfolding o1 o2 o3 o4 .
  from o(5) have r7: "map fst ?new = map fst ?old"
    unfolding o2 o3 by simp
  from i1 i2 r1' r2 a r3 r4 r5 c r6 r7 show ?thesis
    by (intro conjI)
qed

subsection \<open>The docstring\<close>











end
